theory Spec2Isabelle
  imports Main "HOL-Library.Sublist"
begin

section \<open>Book tracker: the listing aggregator and its scheduled jobs\<close>

text \<open>
  A shallow embedding of \<^verbatim>\<open>functions/src/index.ts\<close>: the two source connectors
  (\<^verbatim>\<open>searchCraigslist\<close>, \<^verbatim>\<open>searchReddit\<close>), the aggregator
  (\<^verbatim>\<open>searchAllPlatforms\<close>), the daily job (\<^verbatim>\<open>dailyBookSearch\<close>), the two
  callable operations (\<^verbatim>\<open>searchBook\<close>, \<^verbatim>\<open>markNotificationRead\<close>) and the
  weekly sweep (\<^verbatim>\<open>cleanupOldNotifications\<close>).

  A string is the list of its code units, each below 256 (the Latin-1 range of the
  runtime's UTF-16 strings); on such strings \<^verbatim>\<open>toLowerCase\<close> and \<^verbatim>\<open>trim\<close> are the
  runtime's functions. An instant is an \<open>int\<close>, the milliseconds since the epoch; a
  stored ISO-8601 string (\<^verbatim>\<open>toISOString\<close>) is represented by the instant it denotes.
  Console output is not part of the modelled state.
\<close>

subsection \<open>JavaScript strings and arrays\<close>

text \<open>\<^verbatim>\<open>s.toLowerCase()\<close>: below 256 the letters with a lower case are \<^verbatim>\<open>A\<close> to
  \<^verbatim>\<open>Z\<close> (65 to 90) and the accented capitals 192 to 222 without the multiplication
  sign 215; the lower case of each is 32 above it, and no mapping depends on the
  neighbours.\<close>

definition toLowerChar :: "char \<Rightarrow> char" where
  "toLowerChar c =
     (let n = (of_char c :: nat)
      in if (65 \<le> n \<and> n \<le> 90) \<or> (192 \<le> n \<and> n \<le> 222 \<and> n \<noteq> 215)
         then char_of (n + 32) else c)"

definition toLowerCase :: "string \<Rightarrow> string" where
  "toLowerCase s = map toLowerChar s"

text \<open>\<^verbatim>\<open>s.trim()\<close> strips white space and line terminators from both ends; below 256
  these are tab, line feed, vertical tab, form feed, carriage return, space and the
  no-break space.\<close>

definition isSpace :: "char \<Rightarrow> bool" where
  "isSpace c = (c \<in> set [CHR 0x09, CHR 0x0A, CHR 0x0B, CHR 0x0C, CHR 0x0D, CHR '' '', CHR 0xA0])"

definition trim :: "string \<Rightarrow> string" where
  "trim s = rev (dropWhile isSpace (rev (dropWhile isSpace s)))"

definition isDigit :: "char \<Rightarrow> bool" where
  "isDigit c = (c \<in> set ''0123456789'')"

text \<open>\<^verbatim>\<open>s.startsWith(p)\<close> and \<^verbatim>\<open>s.includes(p)\<close>.\<close>

fun startsWith :: "string \<Rightarrow> string \<Rightarrow> bool" where
  "startsWith s [] = True"
| "startsWith [] (p # ps) = False"
| "startsWith (c # cs) (p # ps) = (c = p \<and> startsWith cs ps)"

fun includesStr :: "string \<Rightarrow> string \<Rightarrow> bool" where
  "includesStr [] p = (p = [])"
| "includesStr (c # cs) p = (startsWith (c # cs) p \<or> includesStr cs p)"

text \<open>\<^verbatim>\<open>s.split(' ')\<close>: the pieces between single spaces, empty pieces included
  (\<^verbatim>\<open>''.split(' ')\<close> is \<^verbatim>\<open>['']\<close>).\<close>

fun splitFrom :: "string \<Rightarrow> string \<Rightarrow> string list" where
  "splitFrom cur [] = [cur]"
| "splitFrom cur (c # cs) =
     (if c = CHR '' '' then cur # splitFrom [] cs else splitFrom (cur @ [c]) cs)"

definition splitSpace :: "string \<Rightarrow> string list" where
  "splitSpace s = splitFrom [] s"

text \<open>\<^verbatim>\<open>xs.some(p)\<close>.\<close>

fun some :: "('a \<Rightarrow> bool) \<Rightarrow> 'a list \<Rightarrow> bool" where
  "some p [] = False"
| "some p (x # xs) = (if p x then True else some p xs)"

text \<open>\<^verbatim>\<open>xs.findIndex(p)\<close>: the index of the first element that satisfies \<open>p\<close>,
  \<open>-1\<close> when there is none.\<close>

fun findIndexFrom :: "('a \<Rightarrow> bool) \<Rightarrow> 'a list \<Rightarrow> int \<Rightarrow> int" where
  "findIndexFrom p [] i = -1"
| "findIndexFrom p (x # xs) i = (if p x then i else findIndexFrom p xs (i + 1))"

definition findIndex :: "('a \<Rightarrow> bool) \<Rightarrow> 'a list \<Rightarrow> int" where
  "findIndex p xs = findIndexFrom p xs 0"

text \<open>\<^verbatim>\<open>xs.filter((x, index, self) => p)\<close>: the callback sees the element, its index
  and the whole array.\<close>

fun filterFrom :: "('a \<Rightarrow> int \<Rightarrow> 'a list \<Rightarrow> bool) \<Rightarrow> 'a list \<Rightarrow> 'a list \<Rightarrow> int \<Rightarrow> 'a list" where
  "filterFrom p self [] i = []"
| "filterFrom p self (x # xs) i =
     (if p x i self then x # filterFrom p self xs (i + 1) else filterFrom p self xs (i + 1))"

definition filterJS :: "('a \<Rightarrow> int \<Rightarrow> 'a list \<Rightarrow> bool) \<Rightarrow> 'a list \<Rightarrow> 'a list" where
  "filterJS p xs = filterFrom p xs xs 0"

subsection \<open>The result model and the responses of the two sources\<close>

record SearchResult =
  title :: string
  price :: string
  source :: string
  condition :: "string option"
  link :: string
  seller :: "string option"

text \<open>What the HTML parser hands over for one \<^verbatim>\<open>.result-row\<close> element: the text of
  its \<^verbatim>\<open>.result-title\<close>, \<^verbatim>\<open>.result-price\<close> and \<^verbatim>\<open>.result-hood\<close> children
  (empty when the child is missing) and the \<^verbatim>\<open>href\<close> of the title, if any.\<close>

record ResultRow =
  rowTitle :: string
  rowPrice :: string
  rowHref :: "string option"
  rowHood :: string

text \<open>The \<^verbatim>\<open>data\<close> object of one forum post.\<close>

record PostData =
  postTitle :: string
  selftext :: "string option"
  over_18 :: bool
  subreddit_type :: string
  subreddit :: string
  permalink :: string
  postAuthor :: string

datatype fault = RequestFailed | TypeError | SendFailed | WriteRejected

subsection \<open>Stored documents, mail and the environment\<close>

text \<open>The documents of the three collections. \<open>lastSearched\<close>, \<open>createdAt\<close> and
  \<open>readAt\<close> are instants; \<open>date\<close> is the day of an instant (the \<^verbatim>\<open>YYYY-MM-DD\<close>
  prefix of its ISO string), counted in days since the epoch. The daily job is the only
  writer of \<open>lastSearched\<close> and writes the ISO string of a reading of the clock, so a
  stored value is absent or an instant.\<close>

record Book =
  bookName :: string
  author :: "string option"
  userId :: string
  lastSearched :: "int option"

record User =
  email :: string
  displayName :: string
  notifications :: "bool option"

record Notification =
  forUser :: string
  bookTitle :: string
  listingTitle :: string
  listingPrice :: string
  listingSource :: string
  listingLink :: string
  listingCondition :: "string option"
  listingSeller :: "string option"
  date :: int
  read :: bool
  createdAt :: int
  readAt :: "int option"

text \<open>One outgoing message: the recipient and the data its subject and body are rendered
  from (the rendering itself is not modelled); \<open>mailDate\<close> is the instant whose date the
  body prints.\<close>

record Mail =
  mailTo :: string
  mailName :: string
  mailBook :: string
  mailListings :: "SearchResult list"
  mailDate :: int

text \<open>
  The collaborators outside the code, as functions from the request to the response:
  \<^item> \<open>craigslistGet\<close>: the page for a query, as the list of its result rows, or a failed
    request;
  \<^item> \<open>redditGet\<close>: the listing for a phrase, as \<^verbatim>\<open>response.data?.data?.children\<close>
    (absent, or a list of posts, each with its \<^verbatim>\<open>data\<close> object or without one), or a
    failed request;
  \<^item> \<open>sendMail\<close>: whether the mail transport accepts a message;
  \<^item> \<open>accepts\<close>: whether the document store accepts a write (an update, or the commit of
    a batch) to the listed documents of a collection;
  \<^item> \<open>autoId\<close>: the identifiers the store generates for new documents;
  \<^item> \<open>clock\<close>: the instants successive readings of the clock give.
\<close>

record env =
  craigslistGet :: "string \<Rightarrow> fault + ResultRow list"
  redditGet :: "string \<Rightarrow> fault + PostData option list option"
  sendMail :: "Mail \<Rightarrow> bool"
  accepts :: "string \<Rightarrow> string list \<Rightarrow> bool"
  autoId :: "nat \<Rightarrow> string"
  clock :: "nat \<Rightarrow> int"

text \<open>
  The state the code acts on: the three collections (documents with their identifiers, in
  the order a query lists them), the messages handed to the mail transport, the queries
  the aggregator was called with, and the numbers of clock readings and of generated
  identifiers so far.
\<close>

record world =
  users :: "(string \<times> User) list"
  books :: "(string \<times> Book) list"
  notificationDocs :: "(string \<times> Notification) list"
  outbox :: "Mail list"
  searches :: "string list"
  ticks :: nat
  minted :: nat

subsection \<open>The text-search connector\<close>

definition relatesToBooks :: "string \<Rightarrow> string \<Rightarrow> bool" where
  "relatesToBooks searchQuery titleLower =
     (includesStr titleLower ''book'' \<or>
      includesStr titleLower ''novel'' \<or>
      includesStr titleLower ''textbook'' \<or>
      some (\<lambda>word. includesStr titleLower (toLowerCase word)) (splitSpace searchQuery))"

definition rowResult :: "ResultRow \<Rightarrow> SearchResult" where
  "rowResult element =
     (let title' = trim (rowTitle element);
          price' = trim (rowPrice element);
          link' = rowHref element;
          location = trim (rowHood element)
      in \<lparr> title = title',
           price = (if price' \<noteq> [] then price' else ''Price not listed''),
           source = ''Craigslist'' @ (if location \<noteq> [] then '' '' @ location else []),
           condition = Some ''Used'',
           link = (case link' of
                     Some l \<Rightarrow> if startsWith l ''http'' then l else ''https://craigslist.org'' @ l
                   | None \<Rightarrow> ''https://craigslist.org'' @ ''undefined''),
           seller = None \<rparr>)"

text \<open>The \<^verbatim>\<open>.each\<close> loop over the rows: it stops at index 8 (\<^verbatim>\<open>return false\<close>) and
  pushes the result of every row whose lower-cased title relates to books.\<close>

fun eachRow :: "string \<Rightarrow> ResultRow list \<Rightarrow> nat \<Rightarrow> SearchResult list \<Rightarrow> SearchResult list" where
  "eachRow searchQuery [] index results = results"
| "eachRow searchQuery (element # elements) index results =
     (if index \<ge> 8 then results
      else eachRow searchQuery elements (index + 1)
             (if relatesToBooks searchQuery (toLowerCase (trim (rowTitle element)))
              then results @ [rowResult element] else results))"

text \<open>The body of the \<^verbatim>\<open>try\<close> block, then the connector with its \<^verbatim>\<open>catch\<close>, which
  turns every failure into the empty list.\<close>

definition craigslistBody :: "env \<Rightarrow> string \<Rightarrow> fault + SearchResult list" where
  "craigslistBody e searchQuery =
     (case craigslistGet e searchQuery of
        Inl err \<Rightarrow> Inl err
      | Inr rows \<Rightarrow> Inr (eachRow searchQuery rows 0 []))"

definition searchCraigslist :: "env \<Rightarrow> string \<Rightarrow> fault + SearchResult list" where
  "searchCraigslist e searchQuery =
     (case craigslistBody e searchQuery of
        Inl err \<Rightarrow> Inr []
      | Inr results \<Rightarrow> Inr results)"

subsection \<open>The forum-search connector\<close>

text \<open>The first match of \<^verbatim>\<open>/\$(\d+(?:\.\d{2})?)/\<close>: its group, the digits after the
  first dollar sign that a digit follows, with a point and two digits when they come
  next.\<close>

fun priceMatch :: "string \<Rightarrow> string option" where
  "priceMatch [] = None"
| "priceMatch (c # cs) =
     (if c = CHR ''$'' \<and> takeWhile isDigit cs \<noteq> []
      then Some (takeWhile isDigit cs @
                 (case dropWhile isDigit cs of
                    p # a # b # _ \<Rightarrow> if p = CHR ''.'' \<and> isDigit a \<and> isDigit b then [p, a, b] else []
                  | _ \<Rightarrow> []))
      else priceMatch cs)"

definition combinedText :: "PostData \<Rightarrow> string" where
  "combinedText postData =
     postTitle postData @ '' '' @ (case selftext postData of Some s \<Rightarrow> s | None \<Rightarrow> [])"

definition sellingPost :: "PostData \<Rightarrow> bool" where
  "sellingPost postData =
     (let combined = toLowerCase (combinedText postData)
      in (includesStr combined ''for sale'' \<or>
          includesStr combined ''selling'' \<or>
          includesStr combined ''sale'' \<or>
          includesStr combined ''$'') \<and>
         \<not> over_18 postData \<and>
         subreddit_type postData = ''public'')"

definition postResult :: "PostData \<Rightarrow> SearchResult" where
  "postResult postData =
     \<lparr> title = postTitle postData,
       price = (case priceMatch (combinedText postData) of
                  Some m \<Rightarrow> ''$'' @ m
                | None \<Rightarrow> ''See post for price''),
       source = ''Reddit r/'' @ subreddit postData,
       condition = None,
       link = ''https://reddit.com'' @ permalink postData,
       seller = Some (''/u/'' @ postAuthor postData) \<rparr>"

text \<open>The \<^verbatim>\<open>forEach\<close> over the posts of one listing: reading a field of a post
  without a \<^verbatim>\<open>data\<close> object throws.\<close>

fun eachPost :: "PostData option list \<Rightarrow> SearchResult list \<Rightarrow> fault + SearchResult list" where
  "eachPost [] results = Inr results"
| "eachPost (None # posts) results = Inl TypeError"
| "eachPost (Some postData # posts) results =
     eachPost posts (if sellingPost postData then results @ [postResult postData] else results)"

text \<open>The loop over the search phrases, one request each; a failed request or a throwing
  post ends the loop with the error.\<close>

fun eachTerm :: "env \<Rightarrow> string list \<Rightarrow> SearchResult list \<Rightarrow> fault + SearchResult list" where
  "eachTerm e [] results = Inr results"
| "eachTerm e (phrase # phrases) results =
     (case redditGet e phrase of
        Inl err \<Rightarrow> Inl err
      | Inr None \<Rightarrow> eachTerm e phrases results
      | Inr (Some children) \<Rightarrow>
          (case eachPost children results of
             Inl err \<Rightarrow> Inl err
           | Inr results' \<Rightarrow> eachTerm e phrases results'))"

definition searchTerms :: "string \<Rightarrow> string list" where
  "searchTerms searchQuery =
     [searchQuery @ '' for sale'', ''selling '' @ searchQuery, searchQuery @ '' book sale'']"

text \<open>The duplicate filter both the forum connector and the aggregator use: an entry
  stays when it is the first of the array with its link.\<close>

definition uniqueResults :: "SearchResult list \<Rightarrow> SearchResult list" where
  "uniqueResults results =
     filterJS (\<lambda>result index self. index = findIndex (\<lambda>r. link r = link result) self) results"

definition redditBody :: "env \<Rightarrow> string \<Rightarrow> fault + SearchResult list" where
  "redditBody e searchQuery =
     (case eachTerm e (searchTerms searchQuery) [] of
        Inl err \<Rightarrow> Inl err
      | Inr results \<Rightarrow> Inr (take 5 (uniqueResults results)))"

definition searchReddit :: "env \<Rightarrow> string \<Rightarrow> fault + SearchResult list" where
  "searchReddit e searchQuery =
     (case redditBody e searchQuery of
        Inl err \<Rightarrow> Inr []
      | Inr results \<Rightarrow> Inr results)"

subsection \<open>The aggregator\<close>

text \<open>The \<^verbatim>\<open>.catch\<close> put on each connector's promise.\<close>

definition catchEmpty :: "fault + SearchResult list \<Rightarrow> SearchResult list" where
  "catchEmpty outcome = (case outcome of Inl err \<Rightarrow> [] | Inr results \<Rightarrow> results)"

definition searchQueryOf :: "string \<Rightarrow> string option \<Rightarrow> string" where
  "searchQueryOf bookTitle' author' =
     (case author' of
        Some a \<Rightarrow> if a \<noteq> [] then bookTitle' @ '' '' @ a else bookTitle'
      | None \<Rightarrow> bookTitle')"

text \<open>
  \<^verbatim>\<open>searchAllPlatforms\<close>: both connectors are called with the query, the text-search
  connector first; the lists are flattened in that order and filtered for duplicates. The
  call is recorded in \<open>searches\<close>. Nothing in the body can throw once each promise has its
  \<^verbatim>\<open>.catch\<close>, so the outer \<^verbatim>\<open>try\<close> has no failing branch.
\<close>

definition searchAllPlatforms ::
  "env \<Rightarrow> string \<Rightarrow> string option \<Rightarrow> world \<Rightarrow> SearchResult list \<times> world" where
  "searchAllPlatforms e bookTitle' author' w =
     (let searchQuery = searchQueryOf bookTitle' author';
          allResults = [catchEmpty (searchCraigslist e searchQuery),
                        catchEmpty (searchReddit e searchQuery)];
          flatResults = concat allResults
      in (uniqueResults flatResults, w\<lparr>searches := searches w @ [searchQuery]\<rparr>))"

subsection \<open>The document store, the clock and the mail transport\<close>

text \<open>A collection is the list of its documents with their identifiers. An update changes
  the document with the given identifier and is rejected when there is none; a set
  replaces the document or adds it; a delete removes it.\<close>

definition hasDoc :: "string \<Rightarrow> (string \<times> 'a) list \<Rightarrow> bool" where
  "hasDoc k docs = (k \<in> set (map fst docs))"

definition updateDoc :: "string \<Rightarrow> ('a \<Rightarrow> 'a) \<Rightarrow> (string \<times> 'a) list \<Rightarrow> (string \<times> 'a) list" where
  "updateDoc k f docs = map (\<lambda>(k', d). if k' = k then (k', f d) else (k', d)) docs"

definition setDoc :: "string \<Rightarrow> 'a \<Rightarrow> (string \<times> 'a) list \<Rightarrow> (string \<times> 'a) list" where
  "setDoc k d docs = (if hasDoc k docs then updateDoc k (\<lambda>_. d) docs else docs @ [(k, d)])"

definition deleteDoc :: "string \<Rightarrow> (string \<times> 'a) list \<Rightarrow> (string \<times> 'a) list" where
  "deleteDoc k docs = filter (\<lambda>(k', d). k' \<noteq> k) docs"

text \<open>\<^verbatim>\<open>Date.now()\<close>, \<^verbatim>\<open>new Date()\<close> and the server's timestamp: the next reading
  of the clock.\<close>

definition now :: "env \<Rightarrow> world \<Rightarrow> int \<times> world" where
  "now e w = (clock e (ticks w), w\<lparr>ticks := Suc (ticks w)\<rparr>)"

definition msPerDay :: int where
  "msPerDay = 24 * 60 * 60 * 1000"

text \<open>
  \<^verbatim>\<open>sendEmailToUser\<close>: the body is rendered first, with one reading of the clock for
  the date it prints (\<^verbatim>\<open>new Date().toLocaleDateString()\<close>); then the message is handed
  to the transport, and when the transport rejects it the error is thrown again. A
  function that returns nothing gives the error it threw, if any, and the state it left.
\<close>

definition sendEmailToUser ::
  "env \<Rightarrow> string \<Rightarrow> string \<Rightarrow> string \<Rightarrow> SearchResult list \<Rightarrow> world \<Rightarrow> fault option \<times> world" where
  "sendEmailToUser e email' name bookTitle' results w =
     (let (today, w1) = now e w;
          mail = \<lparr> mailTo = email', mailName = name, mailBook = bookTitle', mailListings = results,
                   mailDate = today \<rparr>
      in if sendMail e mail then (None, w1\<lparr>outbox := outbox w1 @ [mail]\<rparr>)
         else (Some SendFailed, w1))"

text \<open>\<^verbatim>\<open>x || null\<close> on an optional string: an absent or empty string gives
  \<^verbatim>\<open>null\<close>.\<close>

definition orNull :: "string option \<Rightarrow> string option" where
  "orNull x = (case x of None \<Rightarrow> None | Some s \<Rightarrow> if s = [] then None else Some s)"

text \<open>
  \<^verbatim>\<open>saveNotifications\<close>: one \<^verbatim>\<open>batch.set\<close> on a new document per result, each with
  its own reading of the clock for \<open>date\<close>, then the commit. The server fills in
  \<open>createdAt\<close> when it commits; a rejected commit writes nothing and the error is thrown
  again.
\<close>

definition newNotification :: "string \<Rightarrow> string \<Rightarrow> SearchResult \<Rightarrow> int \<Rightarrow> Notification" where
  "newNotification userId' bookTitle' result t =
     \<lparr> forUser = userId',
       bookTitle = bookTitle',
       listingTitle = title result,
       listingPrice = price result,
       listingSource = source result,
       listingLink = link result,
       listingCondition = orNull (condition result),
       listingSeller = orNull (seller result),
       date = t div msPerDay,
       read = False,
       createdAt = 0,
       readAt = None \<rparr>"

fun batchSets ::
  "env \<Rightarrow> string \<Rightarrow> string \<Rightarrow> SearchResult list \<Rightarrow> (string \<times> Notification) list \<Rightarrow> world
     \<Rightarrow> (string \<times> Notification) list \<times> world" where
  "batchSets e userId' bookTitle' [] batch w = (batch, w)"
| "batchSets e userId' bookTitle' (result # results) batch w =
     (let notificationRef = autoId e (minted w);
          (t, w1) = now e (w\<lparr>minted := Suc (minted w)\<rparr>)
      in batchSets e userId' bookTitle' results
           (batch @ [(notificationRef, newNotification userId' bookTitle' result t)]) w1)"

definition commitSets :: "int \<Rightarrow> (string \<times> Notification) list \<Rightarrow> (string \<times> Notification) list
     \<Rightarrow> (string \<times> Notification) list" where
  "commitSets t batch docs = foldl (\<lambda>ds (k, n). setDoc k (n\<lparr>createdAt := t\<rparr>) ds) docs batch"

definition saveNotifications ::
  "env \<Rightarrow> string \<Rightarrow> string \<Rightarrow> SearchResult list \<Rightarrow> world \<Rightarrow> fault option \<times> world" where
  "saveNotifications e userId' bookTitle' results w =
     (let (batch, w1) = batchSets e userId' bookTitle' results [] w
      in if accepts e ''notifications'' (map fst batch)
         then (let (t, w2) = now e w1
               in (None, w2\<lparr>notificationDocs := commitSets t batch (notificationDocs w2)\<rparr>))
         else (Some WriteRejected, w1))"

subsection \<open>The daily job\<close>

text \<open>The throttle: the book was searched after the instant six hours before \<open>t\<close>.\<close>

definition searchedRecently :: "int \<Rightarrow> Book \<Rightarrow> bool" where
  "searchedRecently t book =
     (let sixHoursAgo = t - 6 * 60 * 60 * 1000
      in case lastSearched book of
           None \<Rightarrow> False
         | Some searched \<Rightarrow> searched > sixHoursAgo)"

text \<open>The two steps taken when there are results: the mail, then the notifications. The
  first error ends them.\<close>

definition notifyUser ::
  "env \<Rightarrow> string \<Rightarrow> User \<Rightarrow> Book \<Rightarrow> SearchResult list \<Rightarrow> world \<Rightarrow> fault option \<times> world" where
  "notifyUser e userId' userData book results w =
     (if length results > 0
      then (case sendEmailToUser e (email userData) (displayName userData) (bookName book) results w of
              (Some err, w1) \<Rightarrow> (Some err, w1)
            | (None, w1) \<Rightarrow> saveNotifications e userId' (bookName book) results w1)
      else (None, w))"

text \<open>\<^verbatim>\<open>bookDoc.ref.update({lastSearched: new Date().toISOString()})\<close>.\<close>

definition updateLastSearched :: "env \<Rightarrow> string \<Rightarrow> world \<Rightarrow> fault option \<times> world" where
  "updateLastSearched e bookId w =
     (let (t, w1) = now e w
      in if hasDoc bookId (books w1) \<and> accepts e ''books'' [bookId]
         then (None, w1\<lparr>books := updateDoc bookId (\<lambda>b. b\<lparr>lastSearched := Some t\<rparr>) (books w1)\<rparr>)
         else (Some WriteRejected, w1))"

text \<open>
  The body of the loop over a user's books. An error thrown by the mail, the notifications
  or the update is caught: the rest of the \<^verbatim>\<open>try\<close> block is skipped and the loop goes
  on with the next book. The pauses after a book and after a user only let time pass, which
  the readings of \<open>clock\<close> account for.
\<close>

definition processBook :: "env \<Rightarrow> string \<Rightarrow> User \<Rightarrow> string \<times> Book \<Rightarrow> world \<Rightarrow> world" where
  "processBook e userId' userData bookDoc w =
     (let (bookId, book) = bookDoc;
          (t, w1) = now e w
      in if searchedRecently t book then w1
         else (let (results, w2) = searchAllPlatforms e (bookName book) (author book) w1
               in case notifyUser e userId' userData book results w2 of
                    (Some err, w3) \<Rightarrow> w3
                  | (None, w3) \<Rightarrow> snd (updateLastSearched e bookId w3)))"

fun eachBook :: "env \<Rightarrow> string \<Rightarrow> User \<Rightarrow> (string \<times> Book) list \<Rightarrow> world \<Rightarrow> world" where
  "eachBook e userId' userData [] w = w"
| "eachBook e userId' userData (bookDoc # bookDocs) w =
     eachBook e userId' userData bookDocs (processBook e userId' userData bookDoc w)"

fun eachUser :: "env \<Rightarrow> (string \<times> User) list \<Rightarrow> world \<Rightarrow> world" where
  "eachUser e [] w = w"
| "eachUser e ((userId', userData) # userDocs) w =
     eachUser e userDocs
       (eachBook e userId' userData (filter (\<lambda>(k, b). userId b = userId') (books w)) w)"

definition dailyBookSearch :: "env \<Rightarrow> world \<Rightarrow> world" where
  "dailyBookSearch e w =
     eachUser e (filter (\<lambda>(k, u). notifications u = Some True) (users w)) w"

subsection \<open>The callable operations\<close>

datatype HttpsError = HttpsError string string

record SearchRequest =
  requestTitle :: "string option"
  requestAuthor :: "string option"

text \<open>\<^verbatim>\<open>searchBook\<close>: \<open>auth\<close> is the caller's identity, if any. The result is the list
  with the instant of the answer. The aggregator does not throw, so the \<^verbatim>\<open>catch\<close> that
  answers \<^verbatim>\<open>internal\<close> has no branch here.\<close>

definition searchBook ::
  "env \<Rightarrow> string option \<Rightarrow> SearchRequest \<Rightarrow> world \<Rightarrow> (HttpsError + SearchResult list \<times> int) \<times> world" where
  "searchBook e auth data w =
     (case auth of
        None \<Rightarrow> (Inl (HttpsError ''unauthenticated'' ''User must be authenticated''), w)
      | Some caller \<Rightarrow>
          (case requestTitle data of
             None \<Rightarrow> (Inl (HttpsError ''invalid-argument'' ''Book title is required''), w)
           | Some bookTitle' \<Rightarrow>
               if bookTitle' = []
               then (Inl (HttpsError ''invalid-argument'' ''Book title is required''), w)
               else (let (results, w1) = searchAllPlatforms e bookTitle' (requestAuthor data) w;
                         (searchedAt, w2) = now e w1
                     in (Inr (results, searchedAt), w2))))"

text \<open>\<^verbatim>\<open>markNotificationRead\<close>: the update of the named notification; the answer is the
  \<^verbatim>\<open>success\<close> field. A rejected update is caught and answered with
  \<^verbatim>\<open>internal\<close>.\<close>

definition markNotificationRead ::
  "env \<Rightarrow> string option \<Rightarrow> string \<Rightarrow> world \<Rightarrow> (HttpsError + bool) \<times> world" where
  "markNotificationRead e auth notificationId w =
     (case auth of
        None \<Rightarrow> (Inl (HttpsError ''unauthenticated'' ''User must be authenticated''), w)
      | Some caller \<Rightarrow>
          if hasDoc notificationId (notificationDocs w) \<and> accepts e ''notifications'' [notificationId]
          then (let (t, w1) = now e w
                in (Inr True,
                    w1\<lparr>notificationDocs :=
                         updateDoc notificationId (\<lambda>n. n\<lparr>read := True, readAt := Some t\<rparr>)
                           (notificationDocs w1)\<rparr>))
          else (Inl (HttpsError ''internal'' ''Failed to update notification''), w))"

subsection \<open>The weekly sweep\<close>

text \<open>
  \<^verbatim>\<open>cleanupOldNotifications\<close>: the query lists the notifications created before the
  instant thirty days back, oldest first, at most 500 of them; they are deleted in one
  batch, which the store commits as a whole or rejects as a whole (the rejection is
  caught). \<^verbatim>\<open>setDate(getDate() - 30)\<close> is taken in a zone without clock changes, where
  thirty days are \<open>30 * msPerDay\<close>.
\<close>

definition oldNotifications :: "int \<Rightarrow> (string \<times> Notification) list \<Rightarrow> (string \<times> Notification) list" where
  "oldNotifications thirtyDaysAgo docs =
     take 500 (sort_key (\<lambda>(k, n). createdAt n) (filter (\<lambda>(k, n). createdAt n < thirtyDaysAgo) docs))"

definition commitDeletes :: "(string \<times> Notification) list \<Rightarrow> (string \<times> Notification) list
     \<Rightarrow> (string \<times> Notification) list" where
  "commitDeletes batch docs = foldl (\<lambda>ds (k, n). deleteDoc k ds) docs batch"

definition cleanupOldNotifications :: "env \<Rightarrow> world \<Rightarrow> world" where
  "cleanupOldNotifications e w =
     (let (t, w1) = now e w;
          thirtyDaysAgo = t - 30 * msPerDay;
          old = oldNotifications thirtyDaysAgo (notificationDocs w1)
      in if old = [] then w1
         else if accepts e ''notifications'' (map fst old)
              then w1\<lparr>notificationDocs := commitDeletes old (notificationDocs w1)\<rparr>
              else w1)"

subsection \<open>The duplicate filter as a recursion\<close>

text \<open>The same filter, written as a recursion that carries the links seen so far; the
  lemmas below show that the array filter computes it.\<close>

fun keepNew :: "string set \<Rightarrow> SearchResult list \<Rightarrow> SearchResult list" where
  "keepNew seen [] = []"
| "keepNew seen (x # xs) =
     (if link x \<in> seen then keepNew seen xs else x # keepNew (insert (link x) seen) xs)"

subsection \<open>Concrete documents and environments\<close>

text \<open>Small inputs on which the functions are run: result rows, forum posts, a reader with
  one tracked book, stored notifications, and environments in which a source, the mail
  transport or nothing is down.\<close>

definition emptyWorld :: world where
  "emptyWorld = \<lparr> users = [], books = [], notificationDocs = [], outbox = [], searches = [],
                   ticks = 0, minted = 0 \<rparr>"

definition dunePost :: PostData where
  "dunePost = \<lparr> postTitle = ''Selling Dune $4'', selftext = None, over_18 = False,
                subreddit_type = ''public'', subreddit = ''books'', permalink = ''/r/books/1'',
                postAuthor = ''ann'' \<rparr>"

definition adultPost :: PostData where
  "adultPost = \<lparr> postTitle = ''Dune for sale'', selftext = Some ''$10 shipped'', over_18 = True,
                subreddit_type = ''public'', subreddit = ''bookexchange'', permalink = ''/r/bookexchange/2'',
                postAuthor = ''bob'' \<rparr>"

definition privatePost :: PostData where
  "privatePost = \<lparr> postTitle = ''Dune for sale'', selftext = None, over_18 = False,
                subreddit_type = ''private'', subreddit = ''club'', permalink = ''/r/club/3'',
                postAuthor = ''cat'' \<rparr>"

definition duneRow :: ResultRow where
  "duneRow = \<lparr> rowTitle = ''Dune paperback book'', rowPrice = ''$5'', rowHref = Some ''/d/1.html'',
               rowHood = '''' \<rparr>"

definition duneRowAgain :: ResultRow where
  "duneRowAgain = \<lparr> rowTitle = ''Dune hardcover'', rowPrice = '''', rowHref = Some ''/d/1.html'',
               rowHood = ''(downtown)'' \<rparr>"

definition duneRowForum :: ResultRow where
  "duneRowForum = \<lparr> rowTitle = ''Dune, see forum'', rowPrice = ''$3'',
               rowHref = Some ''https://reddit.com/r/books/1'', rowHood = '''' \<rparr>"

definition couchRow :: ResultRow where
  "couchRow = \<lparr> rowTitle = ''Red Couch for sale'', rowPrice = ''$40'', rowHref = Some ''/d/2.html'',
               rowHood = '''' \<rparr>"

definition noHrefRow :: ResultRow where
  "noHrefRow = \<lparr> rowTitle = ''Dune paperback book'', rowPrice = ''$5'', rowHref = None, rowHood = '''' \<rparr>"

definition noHrefRowToo :: ResultRow where
  "noHrefRowToo = \<lparr> rowTitle = ''Dune hardcover'', rowPrice = ''$9'', rowHref = None, rowHood = '''' \<rparr>"

definition dedupEnv :: env where
  "dedupEnv = \<lparr> craigslistGet = (\<lambda>q. Inr [duneRow, duneRowAgain, duneRowForum]),
                redditGet = (\<lambda>q. Inr (Some [Some dunePost])),
                sendMail = (\<lambda>m. True), accepts = (\<lambda>c ks. True),
                autoId = (\<lambda>n. replicate (Suc n) CHR ''n''), clock = (\<lambda>n. int n) \<rparr>"

definition filterEnv :: env where
  "filterEnv = \<lparr> craigslistGet = (\<lambda>q. Inr [couchRow, duneRow]),
                redditGet = (\<lambda>q. Inr (Some [Some adultPost, Some privatePost, Some dunePost])),
                sendMail = (\<lambda>m. True), accepts = (\<lambda>c ks. True),
                autoId = (\<lambda>n. replicate (Suc n) CHR ''n''), clock = (\<lambda>n. int n) \<rparr>"

definition pageDownEnv :: env where
  "pageDownEnv = filterEnv \<lparr> craigslistGet := (\<lambda>q. Inl RequestFailed) \<rparr>"

definition forumDownEnv :: env where
  "forumDownEnv = dedupEnv \<lparr> craigslistGet := (\<lambda>q. Inr [noHrefRow, noHrefRowToo]),
                redditGet := (\<lambda>q. Inl RequestFailed) \<rparr>"

definition dayEnv :: env where
  "dayEnv = filterEnv \<lparr> clock := (\<lambda>n. 1700000000000 + 1000 * int n) \<rparr>"

definition quietEnv :: env where
  "quietEnv = dayEnv \<lparr> craigslistGet := (\<lambda>q. Inr [couchRow]), redditGet := (\<lambda>q. Inr None) \<rparr>"

definition mailDownEnv :: env where
  "mailDownEnv = dayEnv \<lparr> sendMail := (\<lambda>m. False) \<rparr>"

definition reader :: User where
  "reader = \<lparr> email = ''ann@example.org'', displayName = ''Ann'', notifications = Some True \<rparr>"

definition duneBook :: Book where
  "duneBook = \<lparr> bookName = ''Dune'', author = None, userId = ''u1'', lastSearched = None \<rparr>"

definition shelf :: "Book \<Rightarrow> world" where
  "shelf book = \<lparr> users = [(''u1'', reader)], books = [(''b1'', book)], notificationDocs = [],
                   outbox = [], searches = [], ticks = 0, minted = 0 \<rparr>"

definition duneRequest :: SearchRequest where
  "duneRequest = \<lparr> requestTitle = Some ''Dune'', requestAuthor = None \<rparr>"

definition duneNote :: Notification where
  "duneNote = \<lparr> forUser = ''u1'', bookTitle = ''Dune'', listingTitle = ''Dune paperback book'',
                listingPrice = ''$5'', listingSource = ''Craigslist'',
                listingLink = ''https://craigslist.org/d/1.html'', listingCondition = Some ''Used'',
                listingSeller = None, date = 19675, read = False, createdAt = 1699999999000,
                readAt = None \<rparr>"

definition inbox :: world where
  "inbox = (shelf duneBook) \<lparr> notificationDocs := [(''n1'', duneNote)] \<rparr>"

definition staleNote :: Notification where
  "staleNote = duneNote \<lparr> createdAt := 1600000000000 \<rparr>"

definition backlog :: "nat \<Rightarrow> world" where
  "backlog n = emptyWorld \<lparr> notificationDocs := map (\<lambda>i. (replicate (Suc i) CHR ''n'', staleNote)) [0..<n] \<rparr>"

section \<open>Properties\<close>

subsection \<open>Strings and the duplicate filter\<close>

text \<open>Containment is the library's \<open>sublist\<close>. The pieces of a split hold no space,
  and joined again, a space before each, they give the string back with a space before
  it.\<close>

lemma startsWith_prefix: "startsWith s p = prefix p s"
  by (induction s p rule: startsWith.induct) auto

lemma includesStr_sublist: "includesStr s p = sublist p s"
  by (induction s) (auto simp: startsWith_prefix sublist_Cons_right)

lemma some_iff: "some p xs = (\<exists>x\<in>set xs. p x)"
  by (induction xs) auto

lemma splitFrom_join:
  "concat (map (\<lambda>piece. CHR '' '' # piece) (splitFrom cur s)) = CHR '' '' # cur @ s"
  by (induction s arbitrary: cur) simp_all

lemma splitFrom_pieces:
  "CHR '' '' \<notin> set cur \<Longrightarrow> \<forall>piece\<in>set (splitFrom cur s). CHR '' '' \<notin> set piece"
proof (induction s arbitrary: cur)
  case Nil
  then show ?case by simp
next
  case (Cons c s)
  show ?case
  proof (cases "c = CHR '' ''")
    case True
    with Cons.prems Cons.IH [of "[]"] show ?thesis by simp
  next
    case False
    with Cons.prems Cons.IH [of "cur @ [c]"] show ?thesis by simp
  qed
qed

lemma splitSpace_join:
  "concat (map (\<lambda>piece. CHR '' '' # piece) (splitSpace s)) = CHR '' '' # s"
  by (simp add: splitSpace_def splitFrom_join)

lemma splitSpace_pieces: "piece \<in> set (splitSpace s) \<Longrightarrow> CHR '' '' \<notin> set piece"
  using splitFrom_pieces [of "[]" s] by (simp add: splitSpace_def)

text \<open>The array filter keeps an entry exactly when no earlier entry has its link.\<close>

lemma findIndexFrom_at:
  "p x \<Longrightarrow> (findIndexFrom p (pre @ x # rest) i = i + int (length pre)) = (\<forall>y\<in>set pre. \<not> p y)"
proof (induction pre arbitrary: i)
  case Nil
  then show ?case by simp
next
  case (Cons y pre)
  from Cons.prems Cons.IH [of "i + 1"] show ?case by auto
qed

lemma filterFrom_keepNew:
  "filterFrom (\<lambda>result index self. index = findIndex (\<lambda>r. link r = link result) self)
     (pre @ xs) xs (int (length pre)) = keepNew (link ` set pre) xs"
proof (induction xs arbitrary: pre)
  case Nil
  show ?case by simp
next
  case (Cons x xs)
  have kept: "(int (length pre) = findIndex (\<lambda>r. link r = link x) (pre @ x # xs)) = (link x \<notin> link ` set pre)"
  proof -
    have "(findIndexFrom (\<lambda>r. link r = link x) (pre @ x # xs) 0 = int (length pre))
            = (\<forall>y\<in>set pre. link y \<noteq> link x)"
      using findIndexFrom_at [of "\<lambda>r. link r = link x" x pre xs 0] by simp
    moreover have "(\<forall>y\<in>set pre. link y \<noteq> link x) = (link x \<notin> link ` set pre)"
      by (simp add: image_iff) metis
    ultimately show ?thesis
      unfolding findIndex_def by metis
  qed
  from Cons.IH [of "pre @ [x]"] kept show ?case
    by (simp add: add.commute insert_absorb)
qed

lemma uniqueResults_keepNew: "uniqueResults xs = keepNew {} xs"
  using filterFrom_keepNew [of "[]" xs] by (simp add: uniqueResults_def filterJS_def)

lemma keepNew_links: "link ` set (keepNew seen xs) = link ` set xs - seen"
  by (induction seen xs rule: keepNew.induct) auto

lemma keepNew_distinct: "distinct (map link (keepNew seen xs))"
  by (induction seen xs rule: keepNew.induct) (use keepNew_links in auto)

lemma keepNew_first:
  "r \<in> set (keepNew seen xs) \<Longrightarrow> find (\<lambda>x. link x = link r) xs = Some r"
proof (induction seen xs rule: keepNew.induct)
  case (1 seen)
  then show ?case by simp
next
  case (2 seen x xs)
  show ?case
  proof (cases "link x \<in> seen")
    case True
    with 2 have r: "r \<in> set (keepNew seen xs)" by simp
    then have "link r \<in> link ` set (keepNew seen xs)" by (rule imageI)
    then have "link r \<notin> seen" unfolding keepNew_links by simp
    with True have "link x \<noteq> link r" by auto
    with 2 True r show ?thesis by simp
  next
    case False
    show ?thesis
    proof (cases "r = x")
      case True
      then show ?thesis by simp
    next
      case neq: False
      with 2 False have r: "r \<in> set (keepNew (insert (link x) seen) xs)" by simp
      then have "link r \<in> link ` set (keepNew (insert (link x) seen) xs)" by (rule imageI)
      then have "link r \<noteq> link x" unfolding keepNew_links by auto
      with 2 False r show ?thesis by auto
    qed
  qed
qed

lemma keepNew_subseq: "subseq (keepNew seen xs) xs"
  by (induction seen xs rule: keepNew.induct) auto

lemma keepNew_subset: "set (keepNew seen xs) \<subseteq> set xs"
  by (induction seen xs rule: keepNew.induct) auto

lemma keepNew_id: "distinct (map link xs) \<Longrightarrow> link ` set xs \<inter> seen = {} \<Longrightarrow> keepNew seen xs = xs"
proof (induction seen xs rule: keepNew.induct)
  case (1 seen)
  show ?case by simp
next
  case (2 seen x xs)
  from "2.prems" have notin: "link x \<notin> seen" by auto
  from "2.prems" have "link ` set xs \<inter> insert (link x) seen = {}" by auto
  with "2.prems" "2.IH"(2) notin have "keepNew (insert (link x) seen) xs = xs" by simp
  with notin show ?case by simp
qed

lemma uniqueResults_idem: "distinct (map link xs) \<Longrightarrow> uniqueResults xs = xs"
  by (simp add: uniqueResults_keepNew keepNew_id)

subsection \<open>The connectors\<close>

lemma eachRow_filter:
  "eachRow q rows i acc =
     acc @ map rowResult (filter (\<lambda>row. relatesToBooks q (toLowerCase (trim (rowTitle row)))) (take (8 - i) rows))"
proof (induction rows arbitrary: i acc)
  case Nil
  show ?case by simp
next
  case (Cons row rows)
  show ?case
  proof (cases "8 \<le> i")
    case True
    then show ?thesis by simp
  next
    case False
    then have "8 - i = Suc (8 - (i + 1))" by arith
    with False Cons.IH [of "i + 1"] show ?thesis by simp
  qed
qed

lemma searchCraigslist_total: "searchCraigslist e q = Inr (catchEmpty (searchCraigslist e q))"
  by (simp add: searchCraigslist_def catchEmpty_def split: sum.splits)

lemma searchReddit_total: "searchReddit e q = Inr (catchEmpty (searchReddit e q))"
  by (simp add: searchReddit_def catchEmpty_def split: sum.splits)

lemma searchReddit_distinct: "distinct (map link (catchEmpty (searchReddit e q)))"
proof -
  have "distinct (map link (take 5 (uniqueResults rs)))" for rs
    unfolding uniqueResults_keepNew take_map [symmetric]
    by (rule distinct_take) (rule keepNew_distinct)
  then show ?thesis
    by (simp add: searchReddit_def redditBody_def catchEmpty_def split: sum.splits)
qed

lemma eachPost_origin:
  "eachPost posts acc = Inr out \<Longrightarrow> r \<in> set out \<Longrightarrow>
   r \<in> set acc \<or> (\<exists>pd. Some pd \<in> set posts \<and> sellingPost pd \<and> r = postResult pd)"
proof (induction posts acc rule: eachPost.induct)
  case (1 results)
  then show ?case by simp
next
  case (2 posts results)
  then show ?case by simp
next
  case (3 postData posts results)
  from "3.prems" "3.IH" show ?case
    by (auto split: if_splits)
qed

lemma eachTerm_origin:
  "eachTerm e phrases acc = Inr out \<Longrightarrow> r \<in> set out \<Longrightarrow>
   r \<in> set acc \<or>
   (\<exists>phrase\<in>set phrases. \<exists>children pd. redditGet e phrase = Inr (Some children) \<and>
       Some pd \<in> set children \<and> sellingPost pd \<and> r = postResult pd)"
proof (induction phrases arbitrary: acc)
  case Nil
  then show ?case by simp
next
  case (Cons phrase phrases)
  show ?case
  proof (cases "redditGet e phrase")
    case (Inl err)
    with Cons.prems show ?thesis by simp
  next
    case (Inr listing)
    show ?thesis
    proof (cases listing)
      case None
      with Inr Cons.prems have "eachTerm e phrases acc = Inr out" by simp
      from Cons.IH [OF this Cons.prems(2)] show ?thesis by auto
    next
      case (Some children)
      with Inr Cons.prems obtain mid where mid: "eachPost children acc = Inr mid"
        and rest: "eachTerm e phrases mid = Inr out"
        by (auto split: sum.splits)
      from Cons.IH [OF rest Cons.prems(2)] eachPost_origin [OF mid] Inr Some
      show ?thesis by auto
    qed
  qed
qed

text \<open>What the text-search connector keeps, when the page is fetched: the results of exactly
  those of the first eight rows whose trimmed, lower-cased title contains \<open>book\<close>,
  \<open>novel\<close> or \<open>textbook\<close>, or the lower-cased form of one of the pieces
  \<^verbatim>\<open>split(' ')\<close> cuts the query into. The pieces include the empty ones a leading,
  trailing or doubled space leaves, and the empty string is contained in every title: with
  such a query all of the first eight rows are kept.\<close>

lemma relevance_filter:
  assumes "craigslistGet e q = Inr rows"
  shows "searchCraigslist e q =
     Inr (map rowResult
           (filter (\<lambda>row. let t = toLowerCase (trim (rowTitle row))
                          in sublist ''book'' t \<or> sublist ''novel'' t \<or> sublist ''textbook'' t \<or>
                             (\<exists>word\<in>set (splitSpace q). sublist (toLowerCase word) t))
              (take 8 rows)))"
  using assms
  by (simp add: searchCraigslist_def craigslistBody_def eachRow_filter relatesToBooks_def
        includesStr_sublist some_iff Let_def)

lemma empty_piece_keeps_all:
  assumes "[] \<in> set (splitSpace q)" and "craigslistGet e q = Inr rows"
  shows "searchCraigslist e q = Inr (map rowResult (take 8 rows))"
proof -
  have "\<exists>word\<in>set (splitSpace q). sublist (toLowerCase word) t" for t
    using assms(1) by (intro bexI [of _ "[]"]) (simp_all add: toLowerCase_def)
  then show ?thesis
    unfolding relevance_filter [OF assms(2)] by (simp add: Let_def)
qed

lemma trailing_space_piece: "[] \<in> set (splitSpace (q @ '' ''))"
proof -
  have "[] \<in> set (splitFrom cur (s @ '' ''))" for cur s
    by (induction s arbitrary: cur) simp_all
  then show ?thesis by (simp add: splitSpace_def)
qed

text \<open>Lower-casing and trimming on letters and white space inside and outside ASCII, and the
  test on titles and queries that differ in case.\<close>

lemma toLowerCase_examples:
  "toLowerCase ''Dune PAPERBACK Book'' = ''dune paperback book''"
  "toLowerCase (''CAF'' @ [CHR 0xC9, CHR 0xD7, CHR 0xDF]) = ''caf'' @ [CHR 0xE9, CHR 0xD7, CHR 0xDF]"
  by code_simp+

lemma trim_examples:
  "trim ([CHR 0xA0] @ '' Dune '' @ [CHR 0x09, CHR 0xA0]) = ''Dune''"
  "trim [CHR 0x85] = [CHR 0x85]"
  by code_simp+

lemma relatesToBooks_examples:
  "relatesToBooks ''dune'' (toLowerCase (trim ''  DUNE Hardcover ''))"
  "relatesToBooks ''DUNE'' (toLowerCase (trim ''dune messiah''))"
  "relatesToBooks ''x'' (toLowerCase (trim ''A NOVEL idea''))"
  "\<not> relatesToBooks ''Dune'' (toLowerCase (trim ''Red Couch for sale''))"
  by code_simp+

text \<open>C8. On the query \<open>Dune\<close> the row titled \<open>Red Couch for sale\<close> is left out and
  the row titled \<open>Dune paperback book\<close> is kept. On the same page and the query
  \<open>Dune\<close> followed by one space, the pieces of the query are \<open>Dune\<close> and the empty
  string, which every title contains: the row titled \<open>Red Couch for sale\<close> is kept,
  though its title contains neither \<open>book\<close>, \<open>novel\<close>, \<open>textbook\<close> nor a word of
  the query.\<close>

theorem text_relevance_empty_piece:
  "craigslistGet filterEnv ''Dune'' = Inr [couchRow, duneRow] \<and>
   craigslistGet filterEnv ''Dune '' = Inr [couchRow, duneRow] \<and>
   rowTitle couchRow = ''Red Couch for sale'' \<and>
   rowTitle duneRow = ''Dune paperback book'' \<and>
   searchCraigslist filterEnv ''Dune'' = Inr [rowResult duneRow] \<and>
   splitSpace ''Dune '' = [''Dune'', ''''] \<and>
   includesStr ''red couch for sale'' (toLowerCase '''') \<and>
   searchCraigslist filterEnv ''Dune '' = Inr [rowResult couchRow, rowResult duneRow]"
  by code_simp

text \<open>C9. Every result the forum-search connector returns is the result of a post of one of
  the three listings it fetched that is not flagged \<open>over_18\<close> and whose subreddit is
  public: a flagged post, or a post of a subreddit that is not public, never yields an
  entry, whatever its text says.\<close>

theorem content_filter:
  "\<forall>r\<in>set (catchEmpty (searchReddit e q)).
     \<exists>phrase\<in>set (searchTerms q). \<exists>children postData.
       redditGet e phrase = Inr (Some children) \<and> Some postData \<in> set children \<and>
       r = postResult postData \<and>
       \<not> over_18 postData \<and> subreddit_type postData = ''public''"
proof
  fix r
  assume r: "r \<in> set (catchEmpty (searchReddit e q))"
  then obtain results where results: "eachTerm e (searchTerms q) [] = Inr results"
    and "r \<in> set (take 5 (uniqueResults results))"
    by (auto simp: searchReddit_def redditBody_def catchEmpty_def split: sum.splits)
  then have "r \<in> set (uniqueResults results)"
    by (auto dest: in_set_takeD)
  then have "r \<in> set results"
    using keepNew_subset [of "{}" results] by (auto simp: uniqueResults_keepNew)
  from eachTerm_origin [OF results this]
  show "\<exists>phrase\<in>set (searchTerms q). \<exists>children postData.
       redditGet e phrase = Inr (Some children) \<and> Some postData \<in> set children \<and>
       r = postResult postData \<and>
       \<not> over_18 postData \<and> subreddit_type postData = ''public''"
    by (auto simp: sellingPost_def Let_def)
qed

theorem content_filter_witness:
  "catchEmpty (searchReddit filterEnv ''Dune'') = [postResult dunePost] \<and>
   redditGet filterEnv ''Dune for sale'' = Inr (Some [Some adultPost, Some privatePost, Some dunePost]) \<and>
   over_18 adultPost \<and> subreddit_type privatePost = ''private'' \<and>
   (\<exists>phrase\<in>set (searchTerms ''Dune''). \<exists>children postData.
       redditGet filterEnv phrase = Inr (Some children) \<and> Some postData \<in> set children \<and>
       postResult dunePost = postResult postData \<and>
       \<not> over_18 postData \<and> subreddit_type postData = ''public'')"
proof -
  have out: "catchEmpty (searchReddit filterEnv ''Dune'') = [postResult dunePost]"
    by code_simp
  have "redditGet filterEnv ''Dune for sale'' = Inr (Some [Some adultPost, Some privatePost, Some dunePost])"
    and "over_18 adultPost" and "subreddit_type privatePost = ''private''"
    by (simp_all add: filterEnv_def adultPost_def privatePost_def)
  with content_filter [of filterEnv "''Dune''"] show ?thesis
    unfolding out by simp
qed

subsection \<open>The aggregator\<close>

text \<open>C1. The output of the aggregator has no two entries with the same link, has every link
  of the flattened connector results, holds for each link the first entry of the flattened
  list with that link, and keeps the order of the flattened list, in which the text-search
  connector's results come before the forum connector's.\<close>

theorem aggregator_dedup:
  "let q = searchQueryOf t a;
       flat = catchEmpty (searchCraigslist e q) @ catchEmpty (searchReddit e q);
       out = fst (searchAllPlatforms e t a w)
   in distinct (map link out) \<and>
      set (map link out) = set (map link flat) \<and>
      (\<forall>r\<in>set out. find (\<lambda>x. link x = link r) flat = Some r) \<and>
      subseq out flat"
proof -
  define flat where "flat = catchEmpty (searchCraigslist e (searchQueryOf t a)) @
                            catchEmpty (searchReddit e (searchQueryOf t a))"
  have out: "fst (searchAllPlatforms e t a w) = keepNew {} flat"
    by (simp add: searchAllPlatforms_def Let_def uniqueResults_keepNew flat_def)
  have "distinct (map link (keepNew {} flat))"
    by (rule keepNew_distinct)
  moreover have "set (map link (keepNew {} flat)) = set (map link flat)"
    by (simp add: keepNew_links)
  moreover have "\<forall>r\<in>set (keepNew {} flat). find (\<lambda>x. link x = link r) flat = Some r"
    by (simp add: keepNew_first)
  moreover have "subseq (keepNew {} flat) flat"
    by (rule keepNew_subseq)
  ultimately show ?thesis
    unfolding Let_def out flat_def [symmetric] by blast
qed

theorem aggregator_dedup_witness:
  "fst (searchAllPlatforms dedupEnv ''Dune'' None emptyWorld) = [rowResult duneRow, rowResult duneRowForum] \<and>
   catchEmpty (searchCraigslist dedupEnv ''Dune'') @ catchEmpty (searchReddit dedupEnv ''Dune'') =
     [rowResult duneRow, rowResult duneRowAgain, rowResult duneRowForum, postResult dunePost] \<and>
   distinct [link (rowResult duneRow), link (rowResult duneRowForum)] \<and>
   link (rowResult duneRowAgain) = link (rowResult duneRow) \<and>
   link (postResult dunePost) = link (rowResult duneRowForum) \<and>
   subseq [rowResult duneRow, rowResult duneRowForum]
     [rowResult duneRow, rowResult duneRowAgain, rowResult duneRowForum, postResult dunePost]"
proof -
  have out: "fst (searchAllPlatforms dedupEnv ''Dune'' None emptyWorld) = [rowResult duneRow, rowResult duneRowForum]"
    by code_simp
  have flat: "catchEmpty (searchCraigslist dedupEnv ''Dune'') @ catchEmpty (searchReddit dedupEnv ''Dune'') =
     [rowResult duneRow, rowResult duneRowAgain, rowResult duneRowForum, postResult dunePost]"
    by code_simp
  have q: "searchQueryOf ''Dune'' None = ''Dune''"
    by (simp add: searchQueryOf_def)
  have same: "link (rowResult duneRowAgain) = link (rowResult duneRow)"
    "link (postResult dunePost) = link (rowResult duneRowForum)"
    by code_simp+
  from aggregator_dedup [where t = "''Dune''" and a = None and e = dedupEnv and w = emptyWorld]
  show ?thesis
    unfolding Let_def q out flat using same by simp
qed

text \<open>C5, as amended. Each connector returns a list, the empty one when its body fails, and
  never an error. When the body of the text-search connector fails, the aggregator's output
  is the forum connector's list as it is. When the body of the forum connector fails, the
  output is the text-search connector's list filtered for duplicate links: it has every
  link of that list, in order, but a row whose link an earlier row already had is dropped.\<close>

theorem fault_isolation:
  "let q = searchQueryOf t a;
       out = fst (searchAllPlatforms e t a w);
       fromCraigslist = catchEmpty (searchCraigslist e q);
       fromReddit = catchEmpty (searchReddit e q)
   in searchCraigslist e q = Inr fromCraigslist \<and>
      searchReddit e q = Inr fromReddit \<and>
      (\<forall>err. craigslistBody e q = Inl err \<longrightarrow> fromCraigslist = [] \<and> out = fromReddit) \<and>
      (\<forall>err. redditBody e q = Inl err \<longrightarrow>
         fromReddit = [] \<and> out = uniqueResults fromCraigslist \<and>
         subseq out fromCraigslist \<and> link ` set out = link ` set fromCraigslist)"
proof -
  define q where "q = searchQueryOf t a"
  have out: "fst (searchAllPlatforms e t a w) =
             uniqueResults (catchEmpty (searchCraigslist e q) @ catchEmpty (searchReddit e q))"
    by (simp add: searchAllPlatforms_def Let_def q_def)
  have c: "craigslistBody e q = Inl err \<Longrightarrow> catchEmpty (searchCraigslist e q) = []" for err
    by (simp add: searchCraigslist_def catchEmpty_def)
  have r: "redditBody e q = Inl err \<Longrightarrow> catchEmpty (searchReddit e q) = []" for err
    by (simp add: searchReddit_def catchEmpty_def)
  have u: "uniqueResults (catchEmpty (searchReddit e q)) = catchEmpty (searchReddit e q)"
    by (rule uniqueResults_idem) (rule searchReddit_distinct)
  have s: "subseq (uniqueResults xs) xs" "link ` set (uniqueResults xs) = link ` set xs" for xs
    by (simp_all add: uniqueResults_keepNew keepNew_subseq keepNew_links)
  show ?thesis
    unfolding Let_def q_def [symmetric] out
    using searchCraigslist_total [of e q] searchReddit_total [of e q] c r u s
    by (auto simp del: set_map)
qed

theorem fault_isolation_witness:
  "craigslistBody pageDownEnv ''Dune'' = Inl RequestFailed \<and>
   searchCraigslist pageDownEnv ''Dune'' = Inr [] \<and>
   searchReddit pageDownEnv ''Dune'' = Inr [postResult dunePost] \<and>
   fst (searchAllPlatforms pageDownEnv ''Dune'' None emptyWorld) = [postResult dunePost] \<and>
   redditBody forumDownEnv ''Dune'' = Inl RequestFailed \<and>
   searchReddit forumDownEnv ''Dune'' = Inr [] \<and>
   fst (searchAllPlatforms forumDownEnv ''Dune'' None emptyWorld) =
     uniqueResults [rowResult noHrefRow, rowResult noHrefRowToo]"
proof -
  have q: "searchQueryOf ''Dune'' None = ''Dune''"
    by (simp add: searchQueryOf_def)
  have page: "craigslistBody pageDownEnv ''Dune'' = Inl RequestFailed"
    by (simp add: craigslistBody_def pageDownEnv_def)
  have forum: "redditBody forumDownEnv ''Dune'' = Inl RequestFailed"
    by (simp add: redditBody_def searchTerms_def forumDownEnv_def)
  have rd: "catchEmpty (searchReddit pageDownEnv ''Dune'') = [postResult dunePost]"
    and cl: "catchEmpty (searchCraigslist forumDownEnv ''Dune'') = [rowResult noHrefRow, rowResult noHrefRowToo]"
    by code_simp+
  from fault_isolation [where t = "''Dune''" and a = None and e = pageDownEnv and w = emptyWorld]
    fault_isolation [where t = "''Dune''" and a = None and e = forumDownEnv and w = emptyWorld]
  show ?thesis
    unfolding Let_def q using page forum rd cl by auto
qed

text \<open>The claim as it was stated, that the output has all results of the other connector,
  fails when the forum is down and two rows of the page have the same link (here both rows
  lack an \<open>href\<close>): the second row's result is produced by its connector and is not in
  the output.\<close>

theorem fault_isolation_cex:
  "redditBody forumDownEnv ''Dune'' = Inl RequestFailed \<and>
   searchCraigslist forumDownEnv ''Dune'' = Inr [rowResult noHrefRow, rowResult noHrefRowToo] \<and>
   fst (searchAllPlatforms forumDownEnv ''Dune'' None emptyWorld) = [rowResult noHrefRow] \<and>
   rowResult noHrefRowToo \<notin> set (fst (searchAllPlatforms forumDownEnv ''Dune'' None emptyWorld))"
  by code_simp

subsection \<open>The daily job\<close>

lemma searchAllPlatforms_world:
  "snd (searchAllPlatforms e t a w) = w\<lparr>searches := searches w @ [searchQueryOf t a]\<rparr>"
  by (simp add: searchAllPlatforms_def Let_def)

lemma searchAllPlatforms_results:
  "fst (searchAllPlatforms e t a w) = fst (searchAllPlatforms e t a w')"
  by (simp add: searchAllPlatforms_def Let_def)

lemma batchSets_frame:
  "batchSets e u b rs batch w = (batch', w') \<Longrightarrow>
     w' = w\<lparr>ticks := ticks w + length rs, minted := minted w + length rs\<rparr> \<and>
     map fst batch' = map fst batch @ map (autoId e) [minted w..<minted w + length rs]"
proof (induction rs arbitrary: batch w)
  case Nil
  then show ?case by simp
next
  case (Cons r rs)
  from Cons.prems have
    "batchSets e u b rs (batch @ [(autoId e (minted w), newNotification u b r (clock e (ticks w)))])
       (w\<lparr>minted := Suc (minted w), ticks := Suc (ticks w)\<rparr>) = (batch', w')"
    by (simp add: now_def Let_def)
  from Cons.IH [OF this]
  have w': "w' = w\<lparr>ticks := ticks w + length (r # rs), minted := minted w + length (r # rs)\<rparr>"
    and ks: "map fst batch' =
             map fst batch @ autoId e (minted w) # map (autoId e) [Suc (minted w)..<Suc (minted w) + length rs]"
    by simp_all
  have "[minted w..<Suc (minted w) + length rs] = minted w # [Suc (minted w)..<Suc (minted w) + length rs]"
    by (rule upt_conv_Cons) simp
  moreover have "minted w + length (r # rs) = Suc (minted w) + length rs"
    by simp
  ultimately have "[minted w..<minted w + length (r # rs)] =
                   minted w # [Suc (minted w)..<Suc (minted w) + length rs]"
    by (simp only:)
  with w' ks show ?case by (simp only: list.map append.simps)
qed

lemma sendEmailToUser_cases:
  "sendEmailToUser e em nm bt rs w =
     (if sendMail e \<lparr> mailTo = em, mailName = nm, mailBook = bt, mailListings = rs,
                      mailDate = clock e (ticks w) \<rparr>
      then (None, w\<lparr>ticks := Suc (ticks w),
                     outbox := outbox w @ [\<lparr> mailTo = em, mailName = nm, mailBook = bt,
                                             mailListings = rs, mailDate = clock e (ticks w) \<rparr>]\<rparr>)
      else (Some SendFailed, w\<lparr>ticks := Suc (ticks w)\<rparr>))"
  by (simp add: sendEmailToUser_def now_def Let_def)

lemma saveNotifications_frame:
  "saveNotifications e u b rs w = (thrown, w') \<Longrightarrow>
     users w' = users w \<and> books w' = books w \<and> outbox w' = outbox w \<and> searches w' = searches w \<and>
     (thrown = None) = accepts e ''notifications'' (map (autoId e) [minted w..<minted w + length rs]) \<and>
     (thrown \<noteq> None \<longrightarrow> notificationDocs w' = notificationDocs w) \<and>
     ticks w' = ticks w + length rs + (if thrown = None then 1 else 0)"
proof -
  assume a: "saveNotifications e u b rs w = (thrown, w')"
  obtain batch w1 where b: "batchSets e u b rs [] w = (batch, w1)"
    by (cases "batchSets e u b rs [] w")
  from batchSets_frame [OF b] a b show ?thesis
    by (auto simp: saveNotifications_def Let_def now_def split: if_splits)
qed

lemma notifyUser_frame:
  assumes a: "notifyUser e uid u book rs w = (thrown, w')"
  shows "users w' = users w \<and> books w' = books w \<and> searches w' = searches w \<and>
     (rs = [] \<longrightarrow> thrown = None \<and> w' = w) \<and>
     (thrown = None) =
       (rs = [] \<or>
        sendMail e \<lparr> mailTo = email u, mailName = displayName u, mailBook = bookName book,
                     mailListings = rs, mailDate = clock e (ticks w) \<rparr> \<and>
        accepts e ''notifications'' (map (autoId e) [minted w..<minted w + length rs]))"
proof (cases "rs = []")
  case True
  with a show ?thesis by (auto simp: notifyUser_def)
next
  case False
  show ?thesis
  proof (cases "sendMail e \<lparr> mailTo = email u, mailName = displayName u, mailBook = bookName book,
                              mailListings = rs, mailDate = clock e (ticks w) \<rparr>")
    case True
    with a False have "saveNotifications e uid (bookName book) rs
        (w\<lparr>ticks := Suc (ticks w),
           outbox := outbox w @ [\<lparr> mailTo = email u, mailName = displayName u, mailBook = bookName book,
                                   mailListings = rs, mailDate = clock e (ticks w) \<rparr>]\<rparr>)
        = (thrown, w')"
      by (simp add: notifyUser_def sendEmailToUser_cases)
    from saveNotifications_frame [OF this] True False show ?thesis by simp
  next
    case nomail: False
    with a False show ?thesis
      by (auto simp: notifyUser_def sendEmailToUser_cases)
  qed
qed

lemma updateLastSearched_cases:
  "updateLastSearched e bid w =
     (if hasDoc bid (books w) \<and> accepts e ''books'' [bid]
      then (None, w\<lparr>ticks := Suc (ticks w),
                     books := updateDoc bid (\<lambda>b. b\<lparr>lastSearched := Some (clock e (ticks w))\<rparr>) (books w)\<rparr>)
      else (Some WriteRejected, w\<lparr>ticks := Suc (ticks w)\<rparr>))"
  by (simp add: updateLastSearched_def now_def Let_def)

lemma searchedRecently_iff:
  "searchedRecently t book = (\<exists>searched. lastSearched book = Some searched \<and> t - 21600000 < searched)"
  by (simp add: searchedRecently_def Let_def split: option.splits)

lemma processBook_skip:
  "searchedRecently (clock e (ticks w)) book \<Longrightarrow>
   processBook e uid u (bid, book) w = w\<lparr>ticks := Suc (ticks w)\<rparr>"
  by (simp add: processBook_def now_def Let_def)

lemma processBook_search:
  assumes "\<not> searchedRecently (clock e (ticks w)) book"
    and "notifyUser e uid u book (fst (searchAllPlatforms e (bookName book) (author book) w))
           (w\<lparr>ticks := Suc (ticks w),
              searches := searches w @ [searchQueryOf (bookName book) (author book)]\<rparr>) = (thrown, w3)"
  shows "processBook e uid u (bid, book) w =
           (case thrown of Some err \<Rightarrow> w3 | None \<Rightarrow> snd (updateLastSearched e bid w3))"
proof -
  let ?w1 = "w\<lparr>ticks := Suc (ticks w)\<rparr>"
  have "searchAllPlatforms e (bookName book) (author book) ?w1 =
          (fst (searchAllPlatforms e (bookName book) (author book) w),
           ?w1\<lparr>searches := searches ?w1 @ [searchQueryOf (bookName book) (author book)]\<rparr>)"
    using searchAllPlatforms_world [of e "bookName book" "author book" ?w1]
      searchAllPlatforms_results [of e "bookName book" "author book" ?w1 w]
    by (metis prod.collapse)
  with assms show ?thesis
    by (simp add: processBook_def now_def Let_def split: option.splits)
qed

text \<open>The job is the loop body run over the books of each user with notifications enabled:
  the properties of \<open>processBook\<close> below hold at every book the job comes to. No
  step adds or removes a book, so a book the job has listed is still stored when the job
  comes to it.\<close>

lemma eachBook_foldl:
  "eachBook e uid u bookDocs w = foldl (\<lambda>w' bookDoc. processBook e uid u bookDoc w') w bookDocs"
  by (induction bookDocs arbitrary: w) simp_all

lemma eachUser_foldl:
  "eachUser e userDocs w =
     foldl (\<lambda>w' (uid, u). eachBook e uid u (filter (\<lambda>(k, b). userId b = uid) (books w')) w') w userDocs"
  by (induction userDocs arbitrary: w) auto

lemma updateDoc_ids: "map fst (updateDoc k f docs) = map fst docs"
  by (induction docs) (auto simp: updateDoc_def)

lemma processBook_ids: "map fst (books (processBook e uid u bookDoc w)) = map fst (books w)"
proof -
  obtain bid book where b: "bookDoc = (bid, book)" by (cases bookDoc)
  show ?thesis
  proof (cases "searchedRecently (clock e (ticks w)) book")
    case True
    from processBook_skip [OF this] show ?thesis by (simp add: b)
  next
    case False
    obtain thrown w3 where n: "notifyUser e uid u book (fst (searchAllPlatforms e (bookName book) (author book) w))
           (w\<lparr>ticks := Suc (ticks w),
              searches := searches w @ [searchQueryOf (bookName book) (author book)]\<rparr>) = (thrown, w3)"
      by (meson surj_pair)
    from notifyUser_frame [OF n] have "books w3 = books w" by simp
    then show ?thesis
      unfolding b processBook_search [OF False n]
      by (cases thrown) (simp_all add: updateLastSearched_cases updateDoc_ids)
  qed
qed

lemma eachBook_ids: "map fst (books (eachBook e uid u bookDocs w)) = map fst (books w)"
  by (induction bookDocs arbitrary: w) (simp_all add: processBook_ids)

text \<open>C2. With \<open>t\<close> the reading of the clock at the check: a book whose \<open>lastSearched\<close>
  is later than \<open>t - 21600000\<close> (six hours in milliseconds) is skipped, the state is
  left as it was but for the count of clock readings, so the aggregator is not called and
  no book changes; a book without \<open>lastSearched\<close>, or with one at or before
  \<open>t - 21600000\<close>, has the aggregator called with its query.\<close>

theorem throttle:
  "let t = clock e (ticks w);
       w' = processBook e uid u (bid, book) w
   in (\<forall>searched. lastSearched book = Some searched \<and> t - 21600000 < searched \<longrightarrow>
         w' = w\<lparr>ticks := Suc (ticks w)\<rparr> \<and> searches w' = searches w \<and> books w' = books w) \<and>
      (lastSearched book = None \<or> (\<exists>searched. lastSearched book = Some searched \<and> searched \<le> t - 21600000) \<longrightarrow>
         searches w' = searches w @ [searchQueryOf (bookName book) (author book)])"
proof -
  let ?w' = "processBook e uid u (bid, book) w"
  have skip: "?w' = w\<lparr>ticks := Suc (ticks w)\<rparr> \<and> searches ?w' = searches w \<and> books ?w' = books w"
    if "lastSearched book = Some searched \<and> clock e (ticks w) - 21600000 < searched" for searched
  proof -
    from that have "searchedRecently (clock e (ticks w)) book"
      unfolding searchedRecently_iff by blast
    from processBook_skip [OF this] show ?thesis by simp
  qed
  have search: "searches ?w' = searches w @ [searchQueryOf (bookName book) (author book)]"
    if "lastSearched book = None \<or>
        (\<exists>searched. lastSearched book = Some searched \<and> searched \<le> clock e (ticks w) - 21600000)"
  proof -
    from that have pass: "\<not> searchedRecently (clock e (ticks w)) book"
      unfolding searchedRecently_iff by auto
    obtain thrown w3 where n: "notifyUser e uid u book (fst (searchAllPlatforms e (bookName book) (author book) w))
           (w\<lparr>ticks := Suc (ticks w),
              searches := searches w @ [searchQueryOf (bookName book) (author book)]\<rparr>) = (thrown, w3)"
      by (meson surj_pair)
    from notifyUser_frame [OF n] have s3: "searches w3 = searches w @ [searchQueryOf (bookName book) (author book)]"
      by simp
    show ?thesis
      unfolding processBook_search [OF pass n] using s3
      by (cases thrown) (simp_all add: updateLastSearched_cases)
  qed
  from skip search show ?thesis
    unfolding Let_def by blast
qed

theorem throttle_witness:
  "processBook dayEnv ''u1'' reader (''b1'', duneBook\<lparr>lastSearched := Some 1699978400001\<rparr>)
       (shelf (duneBook\<lparr>lastSearched := Some 1699978400001\<rparr>))
     = (shelf (duneBook\<lparr>lastSearched := Some 1699978400001\<rparr>))\<lparr>ticks := 1\<rparr> \<and>
   searches (processBook dayEnv ''u1'' reader (''b1'', duneBook\<lparr>lastSearched := Some 1699978400000\<rparr>)
       (shelf (duneBook\<lparr>lastSearched := Some 1699978400000\<rparr>))) = [''Dune''] \<and>
   searches (processBook dayEnv ''u1'' reader (''b1'', duneBook) (shelf duneBook)) = [''Dune'']"
proof -
  have t: "clock dayEnv 0 = 1700000000000"
    by (simp add: dayEnv_def)
  have s: "searches (shelf b) = []" "ticks (shelf b) = 0" for b
    by (simp_all add: shelf_def)
  have q: "searchQueryOf (bookName (duneBook\<lparr>lastSearched := x\<rparr>)) (author (duneBook\<lparr>lastSearched := x\<rparr>)) = ''Dune''"
    "searchQueryOf (bookName duneBook) (author duneBook) = ''Dune''" for x
    by (simp_all add: searchQueryOf_def duneBook_def)
  from throttle [of dayEnv "shelf (duneBook\<lparr>lastSearched := Some 1699978400001\<rparr>)" "''u1''" reader "''b1''"
        "duneBook\<lparr>lastSearched := Some 1699978400001\<rparr>"]
    throttle [of dayEnv "shelf (duneBook\<lparr>lastSearched := Some 1699978400000\<rparr>)" "''u1''" reader "''b1''"
        "duneBook\<lparr>lastSearched := Some 1699978400000\<rparr>"]
    throttle [of dayEnv "shelf duneBook" "''u1''" reader "''b1''" duneBook]
  show ?thesis
    unfolding Let_def q s t by (simp add: duneBook_def)
qed

text \<open>C4. For a book that passes the throttle and for which the aggregator returns the empty
  list, the job hands no message to the mail transport and leaves the notifications as
  they are; the update of \<open>lastSearched\<close> is issued with the next reading of the clock,
  and when the book's document exists and the store accepts the update, every document
  with the book's identifier holds that instant.\<close>

theorem zero_results:
  assumes pass: "\<not> searchedRecently (clock e (ticks w)) book"
    and none: "fst (searchAllPlatforms e (bookName book) (author book) w) = []"
  shows "let w' = processBook e uid u (bid, book) w;
             stamp = clock e (Suc (ticks w))
         in outbox w' = outbox w \<and> notificationDocs w' = notificationDocs w \<and>
            (hasDoc bid (books w) \<and> accepts e ''books'' [bid] \<longrightarrow>
               books w' = updateDoc bid (\<lambda>b. b\<lparr>lastSearched := Some stamp\<rparr>) (books w) \<and>
               (\<forall>b. (bid, b) \<in> set (books w') \<longrightarrow> lastSearched b = Some stamp))"
proof -
  let ?w2 = "w\<lparr>ticks := Suc (ticks w), searches := searches w @ [searchQueryOf (bookName book) (author book)]\<rparr>"
  have n: "notifyUser e uid u book (fst (searchAllPlatforms e (bookName book) (author book) w)) ?w2 = (None, ?w2)"
    by (simp add: none notifyUser_def)
  have p: "processBook e uid u (bid, book) w = snd (updateLastSearched e bid ?w2)"
    using processBook_search [OF pass n] by simp
  have upd: "(bid, b) \<in> set (updateDoc bid f docs) \<Longrightarrow> \<exists>b0. b = f b0" for b f and docs :: "(string \<times> Book) list"
    by (auto simp: updateDoc_def split: if_splits)
  show ?thesis
    unfolding Let_def p by (auto simp: updateLastSearched_cases dest!: upd)
qed

theorem zero_results_witness:
  "fst (searchAllPlatforms quietEnv ''Dune'' None (shelf duneBook)) = [] \<and>
   outbox (processBook quietEnv ''u1'' reader (''b1'', duneBook) (shelf duneBook)) = [] \<and>
   notificationDocs (processBook quietEnv ''u1'' reader (''b1'', duneBook) (shelf duneBook)) = [] \<and>
   books (processBook quietEnv ''u1'' reader (''b1'', duneBook) (shelf duneBook)) =
     [(''b1'', duneBook\<lparr>lastSearched := Some 1700000001000\<rparr>)]"
proof -
  have pass: "\<not> searchedRecently (clock quietEnv (ticks (shelf duneBook))) duneBook"
    by (simp add: searchedRecently_def duneBook_def)
  have none: "fst (searchAllPlatforms quietEnv (bookName duneBook) (author duneBook) (shelf duneBook)) = []"
    by code_simp
  have b: "bookName duneBook = ''Dune''" "author duneBook = None"
    by (simp_all add: duneBook_def)
  have ok: "hasDoc ''b1'' (books (shelf duneBook))" "accepts quietEnv ''books'' [''b1'']"
    by (simp_all add: hasDoc_def shelf_def quietEnv_def dayEnv_def filterEnv_def)
  have stamp: "clock quietEnv (Suc (ticks (shelf duneBook))) = 1700000001000"
    by (simp add: quietEnv_def dayEnv_def shelf_def)
  have upd: "updateDoc ''b1'' f (books (shelf duneBook)) = [(''b1'', f duneBook)]" for f
    by (simp add: updateDoc_def shelf_def)
  from zero_results [OF pass none, where uid = "''u1''" and u = reader and bid = "''b1''"] none ok
  show ?thesis
    unfolding Let_def stamp upd b by (simp add: shelf_def)
qed

text \<open>C3, as amended. For a book that passes the throttle, \<open>lastSearched\<close> is set to the
  reading of the clock taken at the update when the notify steps did not throw (there
  were no results, or the mail was accepted and the batch of notifications committed) and
  the store accepts the update of the existing document; otherwise, so when the mail or
  the batch is rejected and the error is caught, the books are left as they were.\<close>

theorem lastSearched_advance:
  assumes pass: "\<not> searchedRecently (clock e (ticks w)) book"
  shows "let results = fst (searchAllPlatforms e (bookName book) (author book) w);
             mail = \<lparr> mailTo = email u, mailName = displayName u, mailBook = bookName book,
                      mailListings = results, mailDate = clock e (Suc (ticks w)) \<rparr>;
             notified = (results = [] \<or>
                         sendMail e mail \<and>
                         accepts e ''notifications'' (map (autoId e) [minted w..<minted w + length results]));
             stamp = clock e (Suc (ticks w) + (if results = [] then 0 else length results + 2));
             w' = processBook e uid u (bid, book) w
         in (notified \<and> hasDoc bid (books w) \<and> accepts e ''books'' [bid] \<longrightarrow>
               books w' = updateDoc bid (\<lambda>b. b\<lparr>lastSearched := Some stamp\<rparr>) (books w)) \<and>
            (\<not> (notified \<and> hasDoc bid (books w) \<and> accepts e ''books'' [bid]) \<longrightarrow>
               books w' = books w)"
proof -
  define results where "results = fst (searchAllPlatforms e (bookName book) (author book) w)"
  let ?w2 = "w\<lparr>ticks := Suc (ticks w), searches := searches w @ [searchQueryOf (bookName book) (author book)]\<rparr>"
  obtain thrown w3 where n: "notifyUser e uid u book results ?w2 = (thrown, w3)"
    by (meson surj_pair)
  have p: "processBook e uid u (bid, book) w =
           (case thrown of Some err \<Rightarrow> w3 | None \<Rightarrow> snd (updateLastSearched e bid w3))"
    using processBook_search [OF pass n [unfolded results_def]] .
  note f = notifyUser_frame [OF n]
  have t3: "thrown = None \<Longrightarrow> ticks w3 = Suc (ticks w) + (if results = [] then 0 else length results + 2)"
  proof (cases "results = []")
    case True
    with f show ?thesis by simp
  next
    case False
    assume none: "thrown = None"
    with f False have m: "sendMail e \<lparr> mailTo = email u, mailName = displayName u, mailBook = bookName book,
                                      mailListings = results, mailDate = clock e (Suc (ticks w)) \<rparr>"
      by simp
    with n False have "saveNotifications e uid (bookName book) results
        (?w2\<lparr>ticks := Suc (ticks ?w2),
             outbox := outbox ?w2 @ [\<lparr> mailTo = email u, mailName = displayName u, mailBook = bookName book,
                                       mailListings = results, mailDate = clock e (Suc (ticks w)) \<rparr>]\<rparr>)
        = (thrown, w3)"
      by (simp add: notifyUser_def sendEmailToUser_cases)
    from saveNotifications_frame [OF this] none False show ?thesis by simp
  qed
  show ?thesis
    unfolding Let_def results_def [symmetric] p using f t3
    by (cases thrown) (auto simp: updateLastSearched_cases)
qed

theorem lastSearched_advance_witness:
  "fst (searchAllPlatforms dayEnv ''Dune'' None (shelf duneBook)) = [rowResult duneRow, postResult dunePost] \<and>
   books (processBook dayEnv ''u1'' reader (''b1'', duneBook) (shelf duneBook)) =
     [(''b1'', duneBook\<lparr>lastSearched := Some 1700000005000\<rparr>)] \<and>
   books (processBook mailDownEnv ''u1'' reader (''b1'', duneBook) (shelf duneBook)) = [(''b1'', duneBook)]"
proof -
  have pass: "\<not> searchedRecently (clock dayEnv (ticks (shelf duneBook))) duneBook"
    "\<not> searchedRecently (clock mailDownEnv (ticks (shelf duneBook))) duneBook"
    by (simp_all add: searchedRecently_def duneBook_def)
  have b: "bookName duneBook = ''Dune''" "author duneBook = None"
    by (simp_all add: duneBook_def)
  have found: "fst (searchAllPlatforms dayEnv ''Dune'' None (shelf duneBook)) = [rowResult duneRow, postResult dunePost]"
    "fst (searchAllPlatforms mailDownEnv ''Dune'' None (shelf duneBook)) = [rowResult duneRow, postResult dunePost]"
    by code_simp+
  have ok: "hasDoc ''b1'' (books (shelf duneBook))" "accepts dayEnv c ks" "sendMail dayEnv m"
    "\<not> sendMail mailDownEnv m" for c ks m
    by (simp_all add: hasDoc_def shelf_def mailDownEnv_def dayEnv_def filterEnv_def)
  have stamp: "clock dayEnv n = 1700000000000 + 1000 * int n" for n
    by (simp add: dayEnv_def)
  have upd: "updateDoc ''b1'' f (books (shelf duneBook)) = [(''b1'', f duneBook)]" for f
    by (simp add: updateDoc_def shelf_def)
  from lastSearched_advance [OF pass(1), where uid = "''u1''" and u = reader and bid = "''b1''"]
    lastSearched_advance [OF pass(2), where uid = "''u1''" and u = reader and bid = "''b1''"] found ok
  show ?thesis
    unfolding Let_def b found by (simp add: stamp upd) (simp add: shelf_def)
qed

text \<open>The claim as it was stated, that \<open>lastSearched\<close> is updated also after a caught
  error, fails when the mail transport rejects the message: the book passes the throttle,
  there are results, the error is caught, and \<open>lastSearched\<close> is still absent.\<close>

theorem lastSearched_advance_cex:
  "\<not> searchedRecently (clock mailDownEnv (ticks (shelf duneBook))) duneBook \<and>
   fst (searchAllPlatforms mailDownEnv ''Dune'' None (shelf duneBook)) = [rowResult duneRow, postResult dunePost] \<and>
   fst (sendEmailToUser mailDownEnv ''ann@example.org'' ''Ann'' ''Dune'' [rowResult duneRow, postResult dunePost]
          (shelf duneBook)) = Some SendFailed \<and>
   books (processBook mailDownEnv ''u1'' reader (''b1'', duneBook) (shelf duneBook)) = [(''b1'', duneBook)] \<and>
   lastSearched duneBook = None"
  by code_simp

subsection \<open>The callable operations\<close>

text \<open>C7. A call without an identity is answered with \<open>unauthenticated\<close>, and a call
  with an identity but with no title or an empty one with \<open>invalid-argument\<close>; in both
  cases the state is returned as it was, so the aggregator was not called. A call that
  succeeds leaves the notifications, the books, the users and the outbox as they were and
  answers with the aggregator's list and the reading of the clock.\<close>

theorem manual_search:
  "(auth = None \<longrightarrow>
      searchBook e auth data w = (Inl (HttpsError ''unauthenticated'' ''User must be authenticated''), w)) \<and>
   (auth \<noteq> None \<and> (requestTitle data = None \<or> requestTitle data = Some []) \<longrightarrow>
      searchBook e auth data w = (Inl (HttpsError ''invalid-argument'' ''Book title is required''), w)) \<and>
   (\<forall>answer w'. searchBook e auth data w = (Inr answer, w') \<longrightarrow>
      notificationDocs w' = notificationDocs w \<and> books w' = books w \<and> outbox w' = outbox w \<and>
      users w' = users w \<and>
      answer = (fst (searchAllPlatforms e (the (requestTitle data)) (requestAuthor data) w),
                clock e (ticks w)))"
  by (auto simp: searchBook_def searchAllPlatforms_def now_def Let_def split: option.splits if_splits)

theorem manual_search_witness:
  "searchBook dayEnv None duneRequest inbox =
     (Inl (HttpsError ''unauthenticated'' ''User must be authenticated''), inbox) \<and>
   searchBook dayEnv (Some ''u1'') (duneRequest\<lparr>requestTitle := Some []\<rparr>) inbox =
     (Inl (HttpsError ''invalid-argument'' ''Book title is required''), inbox) \<and>
   searchBook dayEnv (Some ''u1'') (duneRequest\<lparr>requestTitle := None\<rparr>) inbox =
     (Inl (HttpsError ''invalid-argument'' ''Book title is required''), inbox) \<and>
   fst (searchBook dayEnv (Some ''u1'') duneRequest inbox) =
     Inr ([rowResult duneRow, postResult dunePost], 1700000000000) \<and>
   notificationDocs (snd (searchBook dayEnv (Some ''u1'') duneRequest inbox)) = [(''n1'', duneNote)] \<and>
   books (snd (searchBook dayEnv (Some ''u1'') duneRequest inbox)) = [(''b1'', duneBook)]"
proof -
  define r where "r = searchBook dayEnv (Some ''u1'') duneRequest inbox"
  have ans: "fst r = Inr ([rowResult duneRow, postResult dunePost], 1700000000000)"
    unfolding r_def by code_simp
  have run: "searchBook dayEnv (Some ''u1'') duneRequest inbox =
             (Inr ([rowResult duneRow, postResult dunePost], 1700000000000), snd r)"
    using ans unfolding r_def by (metis prod.collapse)
  have docs: "notificationDocs inbox = [(''n1'', duneNote)]" "books inbox = [(''b1'', duneBook)]"
    by (simp_all add: inbox_def shelf_def)
  note ok = manual_search [where auth = "Some ''u1''" and e = dayEnv and data = duneRequest and w = inbox, THEN conjunct2, THEN conjunct2,
      rule_format, OF run]
  have frame: "notificationDocs (snd r) = [(''n1'', duneNote)]" "books (snd r) = [(''b1'', duneBook)]"
    using ok docs by simp_all
  have denied: "searchBook dayEnv None duneRequest inbox =
     (Inl (HttpsError ''unauthenticated'' ''User must be authenticated''), inbox)"
    using manual_search [where auth = None and e = dayEnv and data = duneRequest and w = inbox] by simp
  have empty: "searchBook dayEnv (Some ''u1'') (duneRequest\<lparr>requestTitle := Some []\<rparr>) inbox =
     (Inl (HttpsError ''invalid-argument'' ''Book title is required''), inbox)"
    using manual_search [where auth = "Some ''u1''" and e = dayEnv and w = inbox
        and data = "duneRequest\<lparr>requestTitle := Some []\<rparr>"] by simp
  have missing: "searchBook dayEnv (Some ''u1'') (duneRequest\<lparr>requestTitle := None\<rparr>) inbox =
     (Inl (HttpsError ''invalid-argument'' ''Book title is required''), inbox)"
    using manual_search [where auth = "Some ''u1''" and e = dayEnv and w = inbox
        and data = "duneRequest\<lparr>requestTitle := None\<rparr>"] by simp
  from denied empty missing ans frame show ?thesis
    unfolding r_def by blast
qed

text \<open>C10. The outcome of \<open>markNotificationRead\<close> is the same for any two callers with an
  identity: the caller is compared with nothing. For every such caller and the identifier
  of a stored notification whose update the store accepts, the answer is success and
  every document with that identifier has \<open>read\<close> set and \<open>readAt\<close> at the reading
  of the clock, whoever the notification is for.\<close>

theorem mark_read:
  "(\<forall>caller other. markNotificationRead e (Some caller) notificationId w =
                    markNotificationRead e (Some other) notificationId w) \<and>
   (\<forall>caller. hasDoc notificationId (notificationDocs w) \<and> accepts e ''notifications'' [notificationId] \<longrightarrow>
      fst (markNotificationRead e (Some caller) notificationId w) = Inr True \<and>
      notificationDocs (snd (markNotificationRead e (Some caller) notificationId w)) =
        updateDoc notificationId (\<lambda>n. n\<lparr>read := True, readAt := Some (clock e (ticks w))\<rparr>) (notificationDocs w) \<and>
      (\<forall>n. (notificationId, n) \<in> set (notificationDocs (snd (markNotificationRead e (Some caller) notificationId w)))
          \<longrightarrow> read n \<and> readAt n = Some (clock e (ticks w))))"
proof -
  have upd: "(k, n) \<in> set (updateDoc k f docs) \<Longrightarrow> \<exists>n0. n = f n0" for k n f and docs :: "(string \<times> Notification) list"
    by (auto simp: updateDoc_def split: if_splits)
  show ?thesis
    by (auto simp: markNotificationRead_def now_def Let_def dest!: upd)
qed

theorem mark_read_witness:
  "forUser duneNote = ''u1'' \<and>
   markNotificationRead dayEnv (Some ''intruder'') ''n1'' inbox =
     markNotificationRead dayEnv (Some ''u1'') ''n1'' inbox \<and>
   fst (markNotificationRead dayEnv (Some ''intruder'') ''n1'' inbox) = Inr True \<and>
   notificationDocs (snd (markNotificationRead dayEnv (Some ''intruder'') ''n1'' inbox)) =
     [(''n1'', duneNote\<lparr>read := True, readAt := Some 1700000000000\<rparr>)]"
proof -
  have ok: "hasDoc ''n1'' (notificationDocs inbox)" "accepts dayEnv ''notifications'' [''n1'']"
    by (simp_all add: hasDoc_def inbox_def dayEnv_def filterEnv_def)
  have t: "clock dayEnv (ticks inbox) = 1700000000000"
    by (simp add: dayEnv_def inbox_def shelf_def)
  have upd: "updateDoc ''n1'' f (notificationDocs inbox) = [(''n1'', f duneNote)]" for f
    by (simp add: updateDoc_def inbox_def)
  from mark_read [of dayEnv "''n1''" inbox] ok show ?thesis
    unfolding t upd by (simp add: duneNote_def)
qed

subsection \<open>The weekly sweep\<close>

lemma commitDeletes_filter:
  "commitDeletes batch docs = filter (\<lambda>(k, d). k \<notin> fst ` set batch) docs"
proof (induction batch arbitrary: docs)
  case Nil
  show ?case by (simp add: commitDeletes_def)
next
  case (Cons b batch)
  obtain k n where b: "b = (k, n)" by (cases b)
  have "commitDeletes (b # batch) docs = commitDeletes batch (deleteDoc k docs)"
    by (simp add: commitDeletes_def b)
  also have "\<dots> = filter (\<lambda>(k', d). k' \<notin> fst ` set batch) (filter (\<lambda>(k', d). k' \<noteq> k) docs)"
    by (simp add: Cons.IH deleteDoc_def)
  also have "\<dots> = filter (\<lambda>(k', d). k' \<notin> fst ` set (b # batch)) docs"
    by (auto simp: b intro!: filter_cong)
  finally show ?case .
qed

lemma length_without:
  assumes keys: "distinct (map fst docs)"
    and sub: "set batch \<subseteq> set docs"
    and dist: "distinct batch"
  shows "length (filter (\<lambda>(k, d). k \<notin> fst ` set batch) docs) = length docs - length batch"
proof -
  let ?inb = "\<lambda>(k, d). k \<in> fst ` set batch"
  have d: "distinct docs"
    using keys by (rule distinct_map [THEN iffD1, THEN conjunct1])
  have "set (filter ?inb docs) = set batch"
  proof
    show "set (filter ?inb docs) \<subseteq> set batch"
    proof
      fix x
      assume "x \<in> set (filter ?inb docs)"
      then obtain k v where x: "x = (k, v)" "(k, v) \<in> set docs" "k \<in> fst ` set batch"
        by auto
      then obtain v' where v': "(k, v') \<in> set batch"
        by auto
      with sub have "(k, v') \<in> set docs" by auto
      with keys x(2) have "v = v'"
        by (rule eq_key_imp_eq_value)
      with v' x show "x \<in> set batch" by simp
    qed
  next
    show "set batch \<subseteq> set (filter ?inb docs)"
      using sub by force
  qed
  moreover have "distinct (filter ?inb docs)"
    using d by simp
  ultimately have "length (filter ?inb docs) = length batch"
    using dist by (metis distinct_card)
  moreover have "length (filter ?inb docs) + length (filter (\<lambda>x. \<not> ?inb x) docs) = length docs"
    by (rule sum_length_filter_compl)
  moreover have "filter (\<lambda>x. \<not> ?inb x) docs = filter (\<lambda>(k, d). k \<notin> fst ` set batch) docs"
    by (rule filter_cong) auto
  ultimately show ?thesis by simp
qed

lemma oldNotifications_props:
  "set (oldNotifications c docs) \<subseteq> set (filter (\<lambda>(k, n). createdAt n < c) docs)"
  "distinct docs \<Longrightarrow> distinct (oldNotifications c docs)"
  "length (oldNotifications c docs) = min 500 (length (filter (\<lambda>(k, n). createdAt n < c) docs))"
proof -
  show "set (oldNotifications c docs) \<subseteq> set (filter (\<lambda>(k, n). createdAt n < c) docs)"
    unfolding oldNotifications_def using set_take_subset [of 500] by (metis set_sort)
  show "distinct docs \<Longrightarrow> distinct (oldNotifications c docs)"
    unfolding oldNotifications_def by (simp add: distinct_take)
  show "length (oldNotifications c docs) = min 500 (length (filter (\<lambda>(k, n). createdAt n < c) docs))"
    unfolding oldNotifications_def by (simp add: min.commute)
qed

lemma cleanup_cases:
  "notificationDocs (cleanupOldNotifications e w) =
     (let old = oldNotifications (clock e (ticks w) - 2592000000) (notificationDocs w)
      in if accepts e ''notifications'' (map fst old) then commitDeletes old (notificationDocs w)
         else notificationDocs w)"
proof -
  have "commitDeletes [] docs = docs" for docs
    by (simp add: commitDeletes_def)
  then show ?thesis
    by (simp add: cleanupOldNotifications_def now_def Let_def msPerDay_def)
qed

text \<open>C6. With distinct identifiers in the collection, \<open>t\<close> the reading of the clock and
  \<open>2592000000\<close> the milliseconds of thirty days: one run of the sweep only removes
  documents, every removed document was created before \<open>t - 2592000000\<close>, and at most
  500 are removed. The batch is all or nothing: when the store commits it, the number
  removed is the smaller of 500 and the number of expired documents, and the expired ones
  beyond it stay; when the store rejects it, the collection is unchanged. With 600 expired
  notifications, 500 are deleted and 100 stay.\<close>

theorem retention_cap:
  assumes keys: "distinct (map fst (notificationDocs w))"
  shows "let cutoff = clock e (ticks w) - 2592000000;
             docs = notificationDocs w;
             docs' = notificationDocs (cleanupOldNotifications e w);
             expired = (\<lambda>(k, n). createdAt n < cutoff);
             committed = accepts e ''notifications'' (map fst (oldNotifications cutoff docs))
         in docs' = filter (\<lambda>d. d \<in> set docs') docs \<and>
            (\<forall>d\<in>set docs - set docs'. expired d) \<and>
            length docs - length docs' \<le> 500 \<and>
            (committed \<longrightarrow>
               length docs - length docs' = min 500 (length (filter expired docs)) \<and>
               length (filter expired docs') = length (filter expired docs) - min 500 (length (filter expired docs))) \<and>
            (\<not> committed \<longrightarrow> docs' = docs)"
proof -
  define cutoff where "cutoff = clock e (ticks w) - 2592000000"
  define docs where "docs = notificationDocs w"
  define old where "old = oldNotifications cutoff docs"
  define expired where "expired = (\<lambda>(k :: string, n :: Notification). createdAt n < cutoff)"
  define docs' where "docs' = notificationDocs (cleanupOldNotifications e w)"
  have d: "distinct docs"
    using keys unfolding docs_def by (rule distinct_map [THEN iffD1, THEN conjunct1])
  have old_sub: "set old \<subseteq> set (filter expired docs)"
    and old_dist: "distinct old"
    and old_len: "length old = min 500 (length (filter expired docs))"
    unfolding old_def expired_def using oldNotifications_props [where c = cutoff and docs = docs] d by auto
  have cases: "docs' = (if accepts e ''notifications'' (map fst old)
                        then filter (\<lambda>(k, d). k \<notin> fst ` set old) docs else docs)"
    unfolding docs'_def old_def cutoff_def docs_def
    by (simp add: cleanup_cases Let_def commitDeletes_filter)
  have removed: "length (filter (\<lambda>(k, d). k \<notin> fst ` set old) docs) = length docs - length old"
    using keys old_sub old_dist unfolding docs_def [symmetric]
    by (intro length_without) auto
  have gone: "x \<in> set old" if "x \<in> set docs" "x \<notin> set (filter (\<lambda>(k, d). k \<notin> fst ` set old) docs)" for x
  proof -
    obtain k v where x: "x = (k, v)" by (cases x)
    with that obtain v' where v': "(k, v') \<in> set old" by auto
    with old_sub have "(k, v') \<in> set docs" by auto
    with keys that(1) have "v = v'"
      unfolding docs_def x by (rule eq_key_imp_eq_value)
    with v' x show ?thesis by simp
  qed
  have keysx: "distinct (map fst (filter expired docs))"
    using keys unfolding docs_def by (rule distinct_map_filter)
  have left: "length (filter expired (filter (\<lambda>(k, d). k \<notin> fst ` set old) docs)) =
              length (filter expired docs) - length old"
  proof -
    have "filter expired (filter (\<lambda>(k, d). k \<notin> fst ` set old) docs) =
          filter (\<lambda>(k, d). k \<notin> fst ` set old) (filter expired docs)"
      by (simp add: conj_commute)
    also have "length \<dots> = length (filter expired docs) - length old"
      using keysx old_sub old_dist by (rule length_without)
    finally show ?thesis .
  qed
  have sub': "docs' = filter (\<lambda>d. d \<in> set docs') docs"
  proof (cases "accepts e ''notifications'' (map fst old)")
    case True
    then have "docs' = filter (\<lambda>(k, d). k \<notin> fst ` set old) docs"
      using cases by simp
    moreover have "filter (\<lambda>x. x \<in> set (filter (\<lambda>(k, d). k \<notin> fst ` set old) docs)) docs =
                   filter (\<lambda>(k, d). k \<notin> fst ` set old) docs"
      by (rule filter_cong) auto
    ultimately show ?thesis by simp
  next
    case False
    then show ?thesis using cases by simp
  qed
  have exp: "\<forall>x\<in>set docs - set docs'. expired x"
    using cases gone old_sub by (auto split: if_splits)
  have cap: "length docs - length docs' \<le> 500"
    using cases removed old_len by (auto split: if_splits)
  have yes: "length docs - length docs' = min 500 (length (filter expired docs)) \<and>
        length (filter expired docs') = length (filter expired docs) - min 500 (length (filter expired docs))"
    if "accepts e ''notifications'' (map fst old)"
  proof -
    have "length (filter expired docs) \<le> length docs"
      by (rule length_filter_le)
    with old_len have "length old \<le> length docs"
      by linarith
    with that cases removed left old_len show ?thesis by simp
  qed
  have no: "docs' = docs" if "\<not> accepts e ''notifications'' (map fst old)"
    using that cases by simp
  from sub' exp cap yes no show ?thesis
    unfolding Let_def cutoff_def [symmetric] docs_def [symmetric] docs'_def [symmetric]
      expired_def [symmetric] old_def [symmetric]
    by blast
qed

theorem retention_cap_witness:
  "length (notificationDocs (backlog 600)) = 600 \<and>
   length (filter (\<lambda>(k, n). createdAt n < clock dayEnv (ticks (backlog 600)) - 2592000000)
             (notificationDocs (backlog 600))) = 600 \<and>
   length (notificationDocs (cleanupOldNotifications dayEnv (backlog 600))) = 100 \<and>
   length (filter (\<lambda>(k, n). createdAt n < clock dayEnv (ticks (backlog 600)) - 2592000000)
             (notificationDocs (cleanupOldNotifications dayEnv (backlog 600)))) = 100"
proof -
  let ?docs = "notificationDocs (backlog 600)"
  let ?docs' = "notificationDocs (cleanupOldNotifications dayEnv (backlog 600))"
  let ?expired = "\<lambda>(k :: string, n :: Notification). createdAt n < clock dayEnv (ticks (backlog 600)) - 2592000000"
  have docs: "?docs = map (\<lambda>i. (replicate (Suc i) CHR ''n'', staleNote)) [0..<600]"
    by (simp add: backlog_def)
  have "inj_on (\<lambda>i. replicate (Suc i) CHR ''n'') (set [0..<600])"
  proof (rule inj_onI)
    fix i j :: nat
    assume "replicate (Suc i) CHR ''n'' = replicate (Suc j) CHR ''n''"
    then have "length (replicate (Suc i) CHR ''n'') = length (replicate (Suc j) CHR ''n'')"
      by (rule arg_cong)
    then show "i = j" by simp
  qed
  then have keys: "distinct (map fst ?docs)"
    unfolding docs by (simp add: distinct_map comp_def)
  have len: "length ?docs = 600"
    unfolding docs by simp
  have "\<forall>d\<in>set ?docs. ?expired d"
    unfolding docs by (auto simp: staleNote_def dayEnv_def backlog_def emptyWorld_def)
  then have all: "filter ?expired ?docs = ?docs"
    by (simp only: filter_True)
  have committed: "accepts dayEnv c ks" for c ks
    by (simp add: dayEnv_def filterEnv_def)
  from retention_cap [OF keys, of dayEnv]
  have "length ?docs - length ?docs' = min 500 (length (filter ?expired ?docs))"
    and "length (filter ?expired ?docs') =
         length (filter ?expired ?docs) - min 500 (length (filter ?expired ?docs))"
    unfolding Let_def using committed by blast+
  with all len show ?thesis by simp
qed

end
